theory Spec2Isabelle
  imports Complex_Main "HOL-Library.Multiset" "HOL-Library.Product_Lexorder"
begin

section \<open>Values, errors and tables\<close>

text \<open>
  The scripts compute with numpy and pandas double precision numbers. A finite float is
  modelled by the real number it stands for, so rounding is not part of the model (but
  for the normalisation in floating point further down, where a statement depends on
  it); the non-finite results of a division by zero or of a root of a negative number are kept as
  values of their own, since pandas returns them instead of raising.
\<close>

datatype pyfloat = Num real | PInf | NInf | NaN

datatype error =
    ValueError | IndexError | KeyError | UnboundLocalError | AssertionError | AttributeError
  | OverflowError

text \<open>Division of two floats as numpy does it elementwise (zero is taken as \<open>+0.0\<close>).\<close>

fun fdiv :: "pyfloat \<Rightarrow> pyfloat \<Rightarrow> pyfloat" where
  "fdiv (Num a) (Num b) =
     (if b \<noteq> 0 then Num (a / b) else if 0 < a then PInf else if a < 0 then NInf else NaN)"
| "fdiv (Num a) PInf = Num 0"
| "fdiv (Num a) NInf = Num 0"
| "fdiv PInf (Num b) = (if 0 \<le> b then PInf else NInf)"
| "fdiv NInf (Num b) = (if 0 \<le> b then NInf else PInf)"
| "fdiv _ _ = NaN"

text \<open>\<open>x ** 0.5\<close> on a column of finite numbers: a negative base gives \<open>nan\<close>.\<close>

definition pow_half :: "real \<Rightarrow> pyfloat" where
  "pow_half a = (if 0 \<le> a then Num (sqrt a) else NaN)"

text \<open>Comparison of a float column entry with a number; every comparison with \<open>nan\<close> is false.\<close>

fun flt :: "pyfloat \<Rightarrow> real \<Rightarrow> bool" where
  "flt (Num a) b = (a < b)"
| "flt NInf b = True"
| "flt _ b = False"

fun fge :: "pyfloat \<Rightarrow> real \<Rightarrow> bool" where
  "fge (Num a) b = (b \<le> a)"
| "fge PInf b = True"
| "fge _ b = False"

text \<open>
  The argument passed as \<open>xlim\<close>, \<open>tlim\<close> or \<open>fitting_range\<close>: \<open>None\<close>, an int, a list of
  ints, or a value of another type (a float, a string, a tuple).
\<close>

datatype lim = LNone | LInt int | LList "int list" | LFloat real | LStr string | LTuple "int list"

text \<open>Rows of the tables the post-processing functions read.\<close>

record gnf_row =
  col_n :: real
  col_d :: real

record k_row = gnf_row +
  col_segment :: real

record i_row =
  col_t :: real
  col_intensity :: real

record corr_row =
  col_R :: real
  col_C :: real
  col_conc :: real

section \<open>Post-processing of fluctuation records (corr\_utils.py)\<close>

text \<open>
  The row selection at the head of \<open>postprocess_gnf\<close>. The chain of \<open>if\<close>/\<open>elif\<close> has no
  \<open>else\<close>: for any other argument the local \<open>data\<close> is never bound and the next statement,
  which reads it, raises \<open>UnboundLocalError\<close>.
\<close>

fun xlim_rows :: "('a gnf_row_scheme) list \<Rightarrow> real \<Rightarrow> lim \<Rightarrow> error + ('a gnf_row_scheme) list" where
  "xlim_rows gnf_data lb LNone = Inr gnf_data"
| "xlim_rows gnf_data lb (LInt xlim) =
     Inr (filter (\<lambda>r. col_n r < of_int xlim * lb\<^sup>2) gnf_data)"
| "xlim_rows gnf_data lb (LList [x0, x1]) =
     Inr (filter (\<lambda>r. of_int x0 * lb\<^sup>2 \<le> col_n r \<and> col_n r < of_int x1 * lb\<^sup>2) gnf_data)"
| "xlim_rows gnf_data lb _ = Inl UnboundLocalError"

text \<open>The positional slice \<open>xs[0:len(xs):step]\<close> for a positive step.\<close>

fun every_nth :: "nat \<Rightarrow> 'a list \<Rightarrow> 'a list" where
  "every_nth k [] = []"
| "every_nth k (x # xs) = x # every_nth k (drop (k - 1) xs)"

definition sparsify :: "'a list \<Rightarrow> int \<Rightarrow> error + 'a list" where
  "sparsify xs sparse =
     (if sparse = 0 then Inl ValueError
      else if sparse < 0 then Inr []
      else Inr (every_nth (nat sparse) xs))"

definition postprocess_gnf ::
  "('a gnf_row_scheme) list \<Rightarrow> real \<Rightarrow> lim \<Rightarrow> int \<Rightarrow> error + (pyfloat list \<times> pyfloat list)" where
  "postprocess_gnf gnf_data lb xlim sparse =
     (case xlim_rows gnf_data lb xlim of
        Inl e \<Rightarrow> Inl e
      | Inr data \<Rightarrow>
          let xx = map (\<lambda>r. fdiv (Num (col_n r)) (Num (lb\<^sup>2))) data;
              yy = map (\<lambda>r. fdiv (Num (col_d r)) (pow_half (col_n r))) data
          in (case yy of
                [] \<Rightarrow> Inl IndexError
              | y0 # _ \<Rightarrow>
                  let yy = map (\<lambda>y. fdiv y y0) yy
                  in (case sparsify xx sparse of
                        Inl e \<Rightarrow> Inl e
                      | Inr x \<Rightarrow>
                          (case sparsify yy sparse of
                             Inl e \<Rightarrow> Inl e
                           | Inr y \<Rightarrow> Inr (x, y)))))"

text \<open>The selection by \<open>tlim\<close> at the head of \<open>plot_std\<close>.\<close>

fun plot_std_data :: "k_row list \<Rightarrow> real \<Rightarrow> lim \<Rightarrow> real \<Rightarrow> error + k_row list" where
  "plot_std_data k_data seg_length LNone fps = Inr k_data"
| "plot_std_data k_data seg_length (LInt tlim) fps =
     Inr (filter (\<lambda>r. (col_segment r - 1) * seg_length < of_int tlim * fps) k_data)"
| "plot_std_data k_data seg_length (LList [t0, t1]) fps =
     Inr (filter (\<lambda>r. (col_segment r - 1) * seg_length < of_int t1 * fps
                     \<and> of_int t0 * fps \<le> (col_segment r - 1) * seg_length) k_data)"
| "plot_std_data k_data seg_length _ fps = Inl ValueError"

text \<open>The selection by \<open>tlim\<close> at the head of \<open>plot_kinetics\<close>, on both tables.\<close>

definition tc :: "real \<Rightarrow> real \<Rightarrow> k_row \<Rightarrow> pyfloat" where
  "tc seg_length fps r = fdiv (Num ((col_segment r - 1) * seg_length)) (Num fps)"

fun plot_kinetics_data ::
  "k_row list \<Rightarrow> i_row list \<Rightarrow> lim \<Rightarrow> real \<Rightarrow> real \<Rightarrow> error + (k_row list \<times> i_row list)" where
  "plot_kinetics_data k_data i_data LNone seg_length fps = Inr (k_data, i_data)"
| "plot_kinetics_data k_data i_data (LInt tlim) seg_length fps =
     Inr (filter (\<lambda>r. flt (tc seg_length fps r) (of_int tlim)) k_data,
          filter (\<lambda>r. flt (fdiv (Num (col_t r)) (Num fps)) (of_int tlim)) i_data)"
| "plot_kinetics_data k_data i_data (LList [t0, t1]) seg_length fps =
     (if \<not> t0 < t1 then Inl AssertionError
      else Inr (filter (\<lambda>r. flt (tc seg_length fps r) (of_int t1)
                            \<and> fge (tc seg_length fps r) (of_int t0)) k_data,
                filter (\<lambda>r. flt (fdiv (Num (col_t r)) (Num fps)) (of_int t1)
                            \<and> fge (fdiv (Num (col_t r)) (Num fps)) (of_int t0)) i_data))"
| "plot_kinetics_data k_data i_data _ seg_length fps = Inl ValueError"

text \<open>The selection by \<open>fitting_range\<close> at the head of \<open>corr_length\<close>.\<close>

fun corr_length_data :: "corr_row list \<Rightarrow> lim \<Rightarrow> error + corr_row list" where
  "corr_length_data data LNone = Inr data"
| "corr_length_data data (LInt fitting_range) =
     Inr (filter (\<lambda>r. col_R r < of_int fitting_range) data)"
| "corr_length_data data (LList [f0, f1]) =
     Inr (filter (\<lambda>r. col_R r < of_int f1 \<and> of_int f0 \<le> col_R r) data)"
| "corr_length_data data _ = Inl ValueError"

text \<open>
  The sorting and the selection by \<open>xlim\<close> at the head of \<open>plot_correlation\<close>; \<open>xcol\<close> reads
  the column named by \<open>plot_cols[0]\<close>.
\<close>

fun plot_correlation_data :: "corr_row list \<Rightarrow> (corr_row \<Rightarrow> real) \<Rightarrow> lim \<Rightarrow> error + corr_row list" where
  "plot_correlation_data data xcol LNone = Inr (sort_key (\<lambda>r. (xcol r, col_conc r)) data)"
| "plot_correlation_data data xcol (LInt xlim) =
     Inr (filter (\<lambda>r. xcol r < of_int xlim) (sort_key (\<lambda>r. (xcol r, col_conc r)) data))"
| "plot_correlation_data data xcol (LList [x0, x1]) =
     Inr (filter (\<lambda>r. xcol r < of_int x1 \<and> of_int x0 \<le> xcol r)
            (sort_key (\<lambda>r. (xcol r, col_conc r)) data))"
| "plot_correlation_data data xcol _ = Inl ValueError"

text \<open>An argument of a recognised shape: \<open>None\<close>, an int, or a list of exactly two elements.\<close>

fun recognised :: "lim \<Rightarrow> bool" where
  "recognised LNone = True"
| "recognised (LInt i) = True"
| "recognised (LList xs) = (length xs = 2)"
| "recognised _ = False"

section \<open>The normalisation in floating point (corr\_utils.py, postprocess\_gnf)\<close>

text \<open>
  Whether the first \<open>y\<close> is exactly 1 depends on what the double precision operations
  return, so for this question the function is modelled once more with the arithmetic
  made explicit. A table cell is any float, \<open>nan\<close> and the infinities included. The
  operations are parameters: \<open>rnd x\<close> is the float that a multiplication, a division or
  the conversion of an int returns when its exact result is \<open>x\<close> (the nearest double, an
  infinity on overflow, zero on underflow); \<open>power2 x\<close> is the float Python computes for
  \<open>x ** 2\<close>, and \<open>power_half x\<close> the float numpy computes for \<open>x ** 0.5\<close> with \<open>x \<ge> 0\<close>
  finite. \<open>lb\<close> is taken as a finite Python float.
\<close>

record float_ops =
  rnd :: "real \<Rightarrow> pyfloat"
  power2 :: "real \<Rightarrow> pyfloat"
  power_half :: "real \<Rightarrow> pyfloat"

record float_row =
  cell_n :: pyfloat
  cell_d :: pyfloat

text \<open>
  Elementwise division: the quotient of two finite floats with a non-zero divisor is
  rounded; every other case is as in \<open>fdiv\<close>.
\<close>

fun fdiv_r :: "float_ops \<Rightarrow> pyfloat \<Rightarrow> pyfloat \<Rightarrow> pyfloat" where
  "fdiv_r ops (Num a) (Num b) = (if b \<noteq> 0 then rnd ops (a / b) else fdiv (Num a) (Num b))"
| "fdiv_r ops x y = fdiv x y"

text \<open>numpy's \<open>x ** 0.5\<close>: \<open>nan\<close> for a negative number, \<open>inf\<close> for both infinities.\<close>

fun fpow_half :: "float_ops \<Rightarrow> pyfloat \<Rightarrow> pyfloat" where
  "fpow_half ops (Num a) = (if 0 \<le> a then power_half ops a else NaN)"
| "fpow_half ops PInf = PInf"
| "fpow_half ops NInf = PInf"
| "fpow_half ops NaN = NaN"

text \<open>The comparisons \<open>x < y\<close> and \<open>x \<le> y\<close> of two floats; false whenever one is \<open>nan\<close>.\<close>

fun fless :: "pyfloat \<Rightarrow> pyfloat \<Rightarrow> bool" where
  "fless (Num a) (Num b) = (a < b)"
| "fless (Num a) PInf = True"
| "fless NInf (Num b) = True"
| "fless NInf PInf = True"
| "fless _ _ = False"

fun fle :: "pyfloat \<Rightarrow> pyfloat \<Rightarrow> bool" where
  "fle (Num a) (Num b) = (a \<le> b)"
| "fle (Num a) PInf = True"
| "fle NInf (Num b) = True"
| "fle NInf NInf = True"
| "fle NInf PInf = True"
| "fle PInf PInf = True"
| "fle _ _ = False"

text \<open>
  The bound \<open>x * lb ** 2\<close> for an int \<open>x\<close>. Python raises \<open>OverflowError\<close> when the power of
  the float overflows and when the int is too large for a float; the product itself
  overflows to an infinity without raising.
\<close>

definition bound :: "float_ops \<Rightarrow> int \<Rightarrow> real \<Rightarrow> error + pyfloat" where
  "bound ops x lb =
     (case power2 ops lb of
        Num q \<Rightarrow> (case rnd ops (of_int x) of
                    Num a \<Rightarrow> Inr (rnd ops (a * q))
                  | _ \<Rightarrow> Inl OverflowError)
      | _ \<Rightarrow> Inl OverflowError)"

fun xlim_rows_fp :: "float_ops \<Rightarrow> float_row list \<Rightarrow> real \<Rightarrow> lim \<Rightarrow> error + float_row list" where
  "xlim_rows_fp ops gnf_data lb LNone = Inr gnf_data"
| "xlim_rows_fp ops gnf_data lb (LInt xlim) =
     (case bound ops xlim lb of
        Inl e \<Rightarrow> Inl e
      | Inr hi \<Rightarrow> Inr (filter (\<lambda>r. fless (cell_n r) hi) gnf_data))"
| "xlim_rows_fp ops gnf_data lb (LList [x0, x1]) =
     (case bound ops x0 lb of
        Inl e \<Rightarrow> Inl e
      | Inr lo \<Rightarrow>
          (case bound ops x1 lb of
             Inl e \<Rightarrow> Inl e
           | Inr hi \<Rightarrow> Inr (filter (\<lambda>r. fle lo (cell_n r) \<and> fless (cell_n r) hi) gnf_data)))"
| "xlim_rows_fp ops gnf_data lb _ = Inl UnboundLocalError"

definition postprocess_gnf_fp ::
  "float_ops \<Rightarrow> float_row list \<Rightarrow> real \<Rightarrow> lim \<Rightarrow> int \<Rightarrow> error + (pyfloat list \<times> pyfloat list)" where
  "postprocess_gnf_fp ops gnf_data lb xlim sparse =
     (case xlim_rows_fp ops gnf_data lb xlim of
        Inl e \<Rightarrow> Inl e
      | Inr data \<Rightarrow>
          (case power2 ops lb of
             Num q \<Rightarrow>
               let xx = map (\<lambda>r. fdiv_r ops (cell_n r) (Num q)) data;
                   yy = map (\<lambda>r. fdiv_r ops (cell_d r) (fpow_half ops (cell_n r))) data
               in (case yy of
                     [] \<Rightarrow> Inl IndexError
                   | y0 # _ \<Rightarrow>
                       let yy = map (\<lambda>y. fdiv_r ops y y0) yy
                       in (case sparsify xx sparse of
                             Inl e \<Rightarrow> Inl e
                           | Inr x \<Rightarrow>
                               (case sparsify yy sparse of
                                  Inl e \<Rightarrow> Inl e
                                | Inr y \<Rightarrow> Inr (x, y))))
           | _ \<Rightarrow> Inl OverflowError))"

text \<open>
  The arithmetic in which no operation rounds: what the floats do as long as every
  exact result is itself a double.
\<close>

definition exact_ops :: float_ops where
  "exact_ops = \<lparr>rnd = Num, power2 = (\<lambda>x. Num (x\<^sup>2)), power_half = (\<lambda>x. Num (sqrt x))\<rparr>"

text \<open>
  An arithmetic that rounds as \<open>exact_ops\<close> does except that a result below the smallest
  positive double, \<open>2 ^ -1074\<close>, by half or more becomes zero, as in underflow.
\<close>

definition underflow_ops :: float_ops where
  "underflow_ops =
     \<lparr>rnd = (\<lambda>x. if \<bar>x\<bar> \<le> 1 / 2 ^ 1075 then Num 0 else Num x),
      power2 = (\<lambda>x. Num (x\<^sup>2)), power_half = (\<lambda>x. Num (sqrt x))\<rparr>"

text \<open>A table of finite numbers as a table of floats.\<close>

definition as_floats :: "gnf_row \<Rightarrow> float_row" where
  "as_floats r = \<lparr>cell_n = Num (col_n r), cell_d = Num (col_d r)\<rparr>"

section \<open>Smoothing of the kinetics dictionary (corr\_utils.py)\<close>

text \<open>
  The dictionary of series is a list of entries in insertion order, read with \<open>map_of\<close>.
  \<open>gaussian_filter1d\<close> belongs to scipy and is a parameter of the model.
\<close>

type_synonym kinetics = "(string \<times> real list) list"

definition startswith :: "string \<Rightarrow> string \<Rightarrow> bool" where
  "startswith s p = (take (length p) s = p)"

definition smooth_entry :: "(real list \<Rightarrow> int \<Rightarrow> real list) \<Rightarrow> string \<times> real list \<Rightarrow> string \<times> real list" where
  "smooth_entry gaussian_filter1d e =
     (case e of (kw, v) \<Rightarrow>
        if startswith kw ''t'' = False
        then (let sigma = int (length v) div 15 + 1 in (kw, gaussian_filter1d v sigma))
        else (kw, v))"

text \<open>
  After the loop the function plots \<open>new_data['t0']\<close>, \<open>['alpha']\<close>, \<open>['t2']\<close>, \<open>['E']\<close> and
  \<open>['OP']\<close>; a dictionary without one of these keys raises \<open>KeyError\<close> there.
\<close>

definition kinetics_eo_smooth ::
  "(real list \<Rightarrow> int \<Rightarrow> real list) \<Rightarrow> kinetics \<Rightarrow> error + kinetics" where
  "kinetics_eo_smooth gaussian_filter1d data =
     (let new_data = map (smooth_entry gaussian_filter1d) data
      in if \<forall>kw \<in> set [''t0'', ''alpha'', ''t2'', ''E'', ''OP'']. map_of new_data kw \<noteq> None
         then Inr new_data else Inl KeyError)"

text \<open>A dictionary as \<open>kinetics_eo_from_light_on\<close> returns it, for the examples below.\<close>

definition kinetics_example :: kinetics where
  "kinetics_example = [(''t0'', [0, 10]), (''alpha'', [1/2, 3/5]), (''t1'', [0, 1]), (''i'', [0, 1]),
        (''t2'', [0, 2]), (''E'', [3, 4]), (''OP'', [1/4, 1/2])]"

section \<open>Averaging of CSV files (corr\_utils.py)\<close>

text \<open>
  A table read from a CSV file: a row count and the columns in file order, each cell a
  number or missing (\<open>None\<close>, pandas' \<open>NaN\<close>). The rows are indexed \<open>0, 1, ...\<close> as
  \<open>read_csv\<close> does.
\<close>

type_synonym column = "real option list"

record dataframe =
  nrows :: nat
  cols :: "(string \<times> column) list"

definition labels :: "dataframe \<Rightarrow> string list" where
  "labels df = map fst (cols df)"

text \<open>\<open>df[names]\<close> for a list of labels that are all present.\<close>

definition select :: "dataframe \<Rightarrow> string list \<Rightarrow> dataframe" where
  "select df names = \<lparr>nrows = nrows df, cols = map (\<lambda>l. (l, the (map_of (cols df) l))) names\<rparr>"

text \<open>
  \<open>temp += other\<close> on two tables with the same column labels: pandas adds row by row along
  the index and keeps the rows of the left operand; a row the right operand lacks
  becomes missing.
\<close>

fun add_col :: "column \<Rightarrow> column \<Rightarrow> column" where
  "add_col [] ys = []"
| "add_col (x # xs) [] = None # add_col xs []"
| "add_col (x # xs) (y # ys) =
     (case (x, y) of (Some a, Some b) \<Rightarrow> Some (a + b) | _ \<Rightarrow> None) # add_col xs ys"

definition iadd :: "dataframe \<Rightarrow> dataframe \<Rightarrow> dataframe" where
  "iadd temp other =
     \<lparr>nrows = nrows temp,
      cols = map (\<lambda>(l, c). (l, add_col c (the (map_of (cols other) l)))) (cols temp)\<rparr>"

definition div_frame :: "dataframe \<Rightarrow> nat \<Rightarrow> dataframe" where
  "div_frame temp k =
     \<lparr>nrows = nrows temp,
      cols = map (\<lambda>(l, c). (l, map (map_option (\<lambda>a. a / real k)) c)) (cols temp)\<rparr>"

text \<open>
  \<open>pd.concat([a, b], axis=1)\<close>: the columns of both, over the union of the two row
  indexes; the shorter table is filled with missing cells.
\<close>

definition pad :: "nat \<Rightarrow> column \<Rightarrow> column" where
  "pad m c = c @ replicate (m - length c) None"

definition concat_axis1 :: "dataframe \<Rightarrow> dataframe \<Rightarrow> dataframe" where
  "concat_axis1 a b =
     (let m = max (nrows a) (nrows b)
      in \<lparr>nrows = m, cols = map (\<lambda>(l, c). (l, pad m c)) (cols a @ cols b)\<rparr>)"

text \<open>
  The loop over the files of the directory. The state is \<open>None\<close> before the first file
  (\<open>k = 0\<close>, \<open>temp\<close> and \<open>data\<close> unbound) and \<open>(temp, k, data)\<close> afterwards.
\<close>

fun read_files ::
  "string list \<Rightarrow> (dataframe \<times> nat \<times> dataframe) option \<Rightarrow> dataframe list
     \<Rightarrow> error + (dataframe \<times> nat \<times> dataframe) option" where
  "read_files columns st [] = Inr st"
| "read_files columns st (data # files) =
     (if \<exists>label \<in> set columns. label \<notin> set (labels data) then Inl IndexError
      else read_files columns
             (case st of
                None \<Rightarrow> Some (select data columns, 1, data)
              | Some (temp, k, _) \<Rightarrow> Some (iadd temp (select data columns), k + 1, data))
             files)"

definition average_data :: "dataframe list \<Rightarrow> string list \<Rightarrow> error + dataframe" where
  "average_data files columns =
     (case read_files columns None files of
        Inl e \<Rightarrow> Inl e
      | Inr None \<Rightarrow> Inl UnboundLocalError
      | Inr (Some (temp, k, data)) \<Rightarrow>
          let other_cols = filter (\<lambda>label. label \<notin> set columns) (labels data)
          in Inr (concat_axis1 (div_frame temp k) (select data other_cols)))"

text \<open>A well-formed table: every column has as many cells as the table has rows.\<close>

definition wf_frame :: "dataframe \<Rightarrow> bool" where
  "wf_frame df = (\<forall>(l, c) \<in> set (cols df). length c = nrows df)"

text \<open>The running sum after \<open>j\<close> files with the contents of \<open>f\<close>, used in the proofs.\<close>

definition scale :: "nat \<Rightarrow> dataframe \<Rightarrow> string list \<Rightarrow> dataframe" where
  "scale j f names = \<lparr>nrows = nrows f,
     cols = map (\<lambda>l. (l, map (map_option (\<lambda>a. real j * a)) (the (map_of (cols f) l)))) names\<rparr>"

text \<open>Two tables with the columns \<open>R\<close>, \<open>CA\<close> and \<open>CV\<close>, for the examples below.\<close>

definition table_two_rows :: dataframe where
  "table_two_rows = \<lparr>nrows = 2, cols = [(''R'', [Some 0, Some 1]), (''CA'', [Some 1, Some (1/2)]),
                            (''CV'', [Some 1, Some (1/4)])]\<rparr>"

definition table_one_row :: dataframe where
  "table_one_row = \<lparr>nrows = 1, cols = [(''R'', [Some 7]), (''CA'', [Some 5]), (''CV'', [Some 3])]\<rparr>"

section \<open>The fluctuation estimator (df2\_nobp.py, repeated as df2 in corr\_utils.py)\<close>

text \<open>
  A frame is a two-dimensional array of pixel intensities, given as the list of its rows;
  the image sequence is the list of the frames with the integer each frame is named by.
\<close>

type_synonym image = "real list list"

definition shape :: "image \<Rightarrow> nat \<times> nat" where
  "shape img = (length img, (case img of [] \<Rightarrow> 0 | row # _ \<Rightarrow> length row))"

definition size_min :: nat where
  "size_min = 5"

definition step :: nat where
  "step = 50 * size_min"

text \<open>\<open>np.logspace(start, stop, num)\<close>: ten to the power of \<open>num\<close> evenly spaced exponents.\<close>

definition logspace :: "real \<Rightarrow> real \<Rightarrow> nat \<Rightarrow> real list" where
  "logspace start stop num =
     map (\<lambda>i. 10 powr (start + real i * ((stop - start) / real (num - 1)))) [0..<num]"

text \<open>\<open>np.unique\<close>: the distinct elements in increasing order.\<close>

definition unique :: "real list \<Rightarrow> real list" where
  "unique xs = sort (remdups xs)"

text \<open>
  The set of window sizes for an image whose shorter side is \<open>L\<close>. \<open>np.floor\<close> returns
  floats, so the sizes are reals with integer values.
\<close>

definition boxsize :: "int \<Rightarrow> real list" where
  "boxsize L =
     unique (map (\<lambda>x. real_of_int \<lfloor>x\<rfloor>)
       (logspace (log 10 (real size_min)) (log 10 ((real_of_int L - real size_min) / 2)) 100))"

text \<open>The rows of the table \<open>df\<close>: one per frame, window size and window.\<close>

record sample =
  col_I :: real
  col_t :: int
  col_size :: real
  col_number :: nat

text \<open>The rows of \<open>df_out\<close>: the columns \<open>n\<close> and \<open>d\<close>, then \<open>size\<close> and \<open>number\<close>.\<close>

record out_row = gnf_row +
  out_size :: real
  out_number :: nat

text \<open>
  \<open>divide_windows\<close> is defined in corrLib, outside these sources. It is a parameter \<open>dw\<close> of
  the model: \<open>dw img bs step\<close> stands for the flattened array \<open>I\<close> that
  \<open>divide_windows(img, windowsize=[bs, bs], step=step)\<close> returns.
\<close>

type_synonym windows = "image \<Rightarrow> real \<Rightarrow> nat \<Rightarrow> real list"

definition tempdf :: "windows \<Rightarrow> int \<Rightarrow> image \<Rightarrow> real \<Rightarrow> sample list" where
  "tempdf dw name img bs =
     (let I = dw img bs step
      in map (\<lambda>k. \<lparr>col_I = I ! k, col_t = name, col_size = bs, col_number = k\<rparr>)
           [0..<length I])"

definition framedf :: "windows \<Rightarrow> real list \<Rightarrow> int \<times> image \<Rightarrow> sample list" where
  "framedf dw sizes frame = (case frame of (name, img) \<Rightarrow> concat (map (tempdf dw name img) sizes))"

definition df :: "windows \<Rightarrow> real list \<Rightarrow> (int \<times> image) list \<Rightarrow> sample list" where
  "df dw sizes frames = concat (map (framedf dw sizes) frames)"

text \<open>pandas' \<open>drop_duplicates\<close> keeps the first occurrence of every value.\<close>

fun drop_duplicates :: "'a list \<Rightarrow> 'a list" where
  "drop_duplicates [] = []"
| "drop_duplicates (x # xs) = x # drop_duplicates (removeAll x xs)"

text \<open>
  The mean, and numpy's \<open>std\<close>, the population standard deviation. Both are taken of
  non-empty lists only in what follows (numpy gives \<open>nan\<close> for an empty array).
\<close>

definition mean :: "real list \<Rightarrow> real" where
  "mean xs = sum_list xs / real (length xs)"

definition std :: "real list \<Rightarrow> real" where
  "std xs = sqrt (mean (map (\<lambda>x. \<bar>x - mean xs\<bar>\<^sup>2) xs))"

definition df_out :: "sample list \<Rightarrow> out_row list" where
  "df_out rows =
     concat (map (\<lambda>number.
         let subdata1 = filter (\<lambda>r. col_number r = number) rows
         in map (\<lambda>s.
              let subdata = filter (\<lambda>r. col_size r = s) subdata1;
                  d = s\<^sup>2 * std (map col_I subdata);
                  n = s\<^sup>2
              in \<lparr>col_n = n, col_d = d, out_size = s, out_number = number\<rparr>)
            (drop_duplicates (map col_size subdata1)))
       (drop_duplicates (map col_number rows)))"

definition average :: "out_row list \<Rightarrow> gnf_row list" where
  "average out =
     map (\<lambda>s. let subdata = filter (\<lambda>r. out_size r = s) out
              in \<lparr>col_n = mean (map col_n subdata), col_d = mean (map col_d subdata)\<rparr>)
       (drop_duplicates (map out_size out))"

text \<open>\<open>L = min(img.shape)\<close>.\<close>

definition shorter_side :: "image \<Rightarrow> int" where
  "shorter_side img = int (min (fst (shape img)) (snd (shape img)))"

text \<open>
  The whole script. An empty sequence has no first frame to read (\<open>l.Dir.loc[0]\<close> raises).
  For \<open>L \<le> size_min\<close> the logarithm of \<open>(L - size_min) / 2\<close> is \<open>-inf\<close> or \<open>nan\<close> in numpy and
  no window size is a number; what \<open>divide_windows\<close> does with them is outside these
  sources, and the model stops with \<open>ValueError\<close>. When no window was recorded at all,
  \<open>df_out\<close> stays an empty table without a column \<open>size\<close>, and reading it raises \<open>KeyError\<close>.
\<close>

definition df2 :: "windows \<Rightarrow> (int \<times> image) list \<Rightarrow> error + gnf_row list" where
  "df2 dw frames =
     (case frames of
        [] \<Rightarrow> Inl KeyError
      | (name, img) # _ \<Rightarrow>
          let L = shorter_side img
          in if L \<le> int size_min then Inl ValueError
             else let out = df_out (df dw (boxsize L) frames)
                  in if out = [] then Inl KeyError else Inr (average out))"

text \<open>
  The fluctuation as the specification words it: for a window size, the population
  standard deviation of the window intensities of that size collected across all
  frames, multiplied by the squared size.
\<close>

definition pooled_fluctuation :: "windows \<Rightarrow> (int \<times> image) list \<Rightarrow> real \<Rightarrow> real" where
  "pooled_fluctuation dw frames s =
     s\<^sup>2 * std (concat (map (\<lambda>(name, img). dw img s step) frames))"

text \<open>
  Modelled from the spec: \<open>divide_windows\<close>, which is not in these sources. The frame is
  tiled into windows of the given size whose corners are \<open>step\<close> apart and which lie
  inside the frame, and each window records its summed pixel intensity, row by row.
\<close>

definition positions :: "nat \<Rightarrow> nat \<Rightarrow> nat \<Rightarrow> nat list" where
  "positions len w st = (if len < w then [] else map (\<lambda>k. k * st) [0..<(len - w) div st + 1])"

definition window_sum :: "image \<Rightarrow> nat \<Rightarrow> nat \<Rightarrow> nat \<Rightarrow> real" where
  "window_sum img w r c = sum_list (map (\<lambda>row. sum_list (take w (drop c row))) (take w (drop r img)))"

definition divide_windows :: windows where
  "divide_windows img bs st =
     (let w = nat \<lfloor>bs\<rfloor>
      in concat (map (\<lambda>r. map (\<lambda>c. window_sum img w r c) (positions (snd (shape img)) w st))
                  (positions (fst (shape img)) w st)))"

definition all_zero :: "image \<Rightarrow> bool" where
  "all_zero img = (\<forall>row \<in> set img. \<forall>p \<in> set row. p = 0)"

text \<open>A windowing function that finds no intensity in a frame without any.\<close>

definition zero_preserving :: "windows \<Rightarrow> bool" where
  "zero_preserving dw = (\<forall>img bs st. all_zero img \<longrightarrow> (\<forall>x \<in> set (dw img bs st). x = 0))"

section \<open>Notions used in the statements about the estimator\<close>

text \<open>The windows of one frame and one size, and the row of \<open>df\<close> of one of them.\<close>

definition windows_of :: "windows \<Rightarrow> int \<times> image \<Rightarrow> real \<Rightarrow> real list" where
  "windows_of dw frame b = dw (snd frame) b step"

definition sample_of :: "windows \<Rightarrow> int \<times> image \<Rightarrow> real \<Rightarrow> nat \<Rightarrow> sample" where
  "sample_of dw frame b k =
     \<lparr>col_I = windows_of dw frame b ! k, col_t = fst frame, col_size = b, col_number = k\<rparr>"

text \<open>The row of \<open>df_out\<close> for window \<open>j\<close> and size \<open>s\<close>.\<close>

definition row_of :: "sample list \<Rightarrow> nat \<Rightarrow> real \<Rightarrow> out_row" where
  "row_of rows j s =
     \<lparr>col_n = s\<^sup>2,
      col_d = s\<^sup>2 * std (map col_I
                (filter (\<lambda>r. col_size r = s) (filter (\<lambda>r. col_number r = j) rows))),
      out_size = s, out_number = j\<rparr>"

text \<open>The window indexes recorded for a size.\<close>

definition numbers_of :: "sample list \<Rightarrow> real \<Rightarrow> nat list" where
  "numbers_of rows s =
     filter (\<lambda>j. \<exists>r \<in> set rows. col_number r = j \<and> col_size r = s)
       (drop_duplicates (map col_number rows))"

text \<open>Every frame has at least one window of every size.\<close>

definition windows_everywhere :: "windows \<Rightarrow> real list \<Rightarrow> (int \<times> image) list \<Rightarrow> bool" where
  "windows_everywhere dw bs frames =
     (\<forall>frame \<in> set frames. \<forall>b \<in> set bs. dw (snd frame) b step \<noteq> [])"

text \<open>
  Every frame has the same number \<open>m s > 0\<close> of windows of size \<open>s\<close>, as frames of
  identical dimensions have.
\<close>

definition same_windows :: "windows \<Rightarrow> real list \<Rightarrow> (int \<times> image) list \<Rightarrow> (real \<Rightarrow> nat) \<Rightarrow> bool" where
  "same_windows dw bs frames m =
     (\<forall>s \<in> set bs. 0 < m s \<and> (\<forall>frame \<in> set frames. length (dw (snd frame) s step) = m s))"

text \<open>
  Two frames of 15 rows and 300 columns for the examples: one without any intensity, one
  with a single pixel of intensity 2 in row 0, column 250. With \<open>step = 250\<close> they hold two
  windows of size 5, at columns 0 and 250.
\<close>

definition frame_dark :: image where
  "frame_dark = replicate 15 (replicate 300 0)"

definition frame_spot :: image where
  "frame_spot = (replicate 250 0 @ [2] @ replicate 49 0) # replicate 14 (replicate 300 0)"

section \<open>Properties of the post-processing\<close>

lemma unrecognised_cases:
  assumes "\<not> recognised l"
  obtains xs where "l = LList xs" "length xs \<noteq> 2"
  | x where "l = LFloat x" | s where "l = LStr s" | xs where "l = LTuple xs"
  using assms by (cases l) auto

lemma list_not_two_cases:
  assumes "length xs \<noteq> 2"
  obtains "xs = []" | x where "xs = [x]" | x y z zs where "xs = x # y # z # zs"
  using assms
proof (cases xs)
  case Nil
  then show ?thesis using that by simp
next
  case (Cons x ys)
  note xs = this
  show ?thesis
  proof (cases ys)
    case Nil
    then show ?thesis using that xs by simp
  next
    case (Cons y zs)
    then show ?thesis using that xs assms by (cases zs) auto
  qed
qed

lemma plot_std_raises:
  "\<not> recognised tlim \<Longrightarrow> plot_std_data k_data seg_length tlim fps = Inl ValueError"
  by (erule unrecognised_cases; (erule list_not_two_cases)?; simp)

lemma plot_kinetics_raises:
  "\<not> recognised tlim \<Longrightarrow> plot_kinetics_data k_data i_data tlim seg_length fps = Inl ValueError"
  by (erule unrecognised_cases; (erule list_not_two_cases)?; simp)

lemma corr_length_raises:
  "\<not> recognised fitting_range \<Longrightarrow> corr_length_data data fitting_range = Inl ValueError"
  by (erule unrecognised_cases; (erule list_not_two_cases)?; simp)

lemma plot_correlation_raises:
  "\<not> recognised xlim \<Longrightarrow> plot_correlation_data data xcol xlim = Inl ValueError"
  by (erule unrecognised_cases; (erule list_not_two_cases)?; simp)

lemma xlim_rows_unbound:
  "\<not> recognised xlim \<Longrightarrow> xlim_rows gnf_data lb xlim = Inl UnboundLocalError"
  by (erule unrecognised_cases; (erule list_not_two_cases)?; simp)

text \<open>
  C2 (the code at a failing input). An \<open>xlim\<close> that is neither \<open>None\<close>, nor an int, nor a
  list of two elements makes \<open>postprocess_gnf\<close> stop with \<open>UnboundLocalError\<close>, whatever the
  table, where \<open>plot_std\<close>, \<open>plot_kinetics\<close>, \<open>corr_length\<close> and \<open>plot_correlation\<close> raise
  \<open>ValueError\<close>.
\<close>

theorem postprocess_gnf_unrecognised_xlim:
  "postprocess_gnf gnf_data lb (LFloat x) sparse = Inl UnboundLocalError
   \<and> postprocess_gnf gnf_data lb (LStr s) sparse = Inl UnboundLocalError
   \<and> postprocess_gnf gnf_data lb (LTuple xs) sparse = Inl UnboundLocalError
   \<and> postprocess_gnf gnf_data lb (LList [x0, x1, x2]) sparse = Inl UnboundLocalError
   \<and> plot_std_data k_data seg_length (LFloat x) fps = Inl ValueError"
  by (simp add: postprocess_gnf_def)

lemma every_nth_Cons: "every_nth k (x # xs) = x # every_nth k (drop (k - 1) xs)"
  by simp

lemma sparsify_pos: "0 < sparse \<Longrightarrow> sparsify xs sparse = Inr (every_nth (nat sparse) xs)"
  by (simp add: sparsify_def)




section \<open>Properties of the normalisation in floating point\<close>

lemma xlim_rows_fp_unbound:
  "\<not> recognised xlim \<Longrightarrow> xlim_rows_fp ops gnf_data lb xlim = Inl UnboundLocalError"
  by (erule unrecognised_cases; (erule list_not_two_cases)?; simp)

lemma postprocess_gnf_fp_unbound:
  "\<not> recognised xlim \<Longrightarrow> postprocess_gnf_fp ops gnf_data lb xlim sparse = Inl UnboundLocalError"
  by (simp add: postprocess_gnf_fp_def xlim_rows_fp_unbound)

text \<open>
  On a table of finite numbers, and as long as no operation rounds, the function in
  floating point is the function of the first model.
\<close>

lemma fdiv_r_exact: "fdiv_r exact_ops x y = fdiv x y"
  by (cases x; cases y) (simp_all add: exact_ops_def)

lemma fpow_half_exact: "fpow_half exact_ops (Num a) = pow_half a"
  by (simp add: exact_ops_def pow_half_def)

lemma bound_exact: "bound exact_ops x lb = Inr (Num (of_int x * lb\<^sup>2))"
  by (simp add: bound_def exact_ops_def)

lemma filter_as_floats:
  "filter P (map as_floats rows) = map as_floats (filter (\<lambda>r. P (as_floats r)) rows)"
  by (induction rows) simp_all

lemma xlim_rows_fp_exact:
  "xlim_rows_fp exact_ops (map as_floats gnf_data) lb xlim
     = (case xlim_rows gnf_data lb xlim of Inl e \<Rightarrow> Inl e | Inr data \<Rightarrow> Inr (map as_floats data))"
proof (cases "recognised xlim")
  case False
  then show ?thesis
    by (simp add: xlim_rows_fp_unbound xlim_rows_unbound)
next
  case True
  then consider "xlim = LNone" | t where "xlim = LInt t" | x0 x1 where "xlim = LList [x0, x1]"
    by (cases xlim) (auto simp: length_Suc_conv numeral_2_eq_2)
  then show ?thesis
  proof cases
    case 1
    then show ?thesis by simp
  next
    case 2
    then show ?thesis
      by (simp add: bound_exact filter_as_floats as_floats_def)
  next
    case 3
    then show ?thesis
      by (simp add: bound_exact filter_as_floats as_floats_def)
  qed
qed

lemma postprocess_gnf_fp_exact:
  "postprocess_gnf_fp exact_ops (map as_floats gnf_data) lb xlim sparse
     = postprocess_gnf gnf_data lb xlim sparse"
proof (cases "xlim_rows gnf_data lb xlim")
  case (Inl e)
  then show ?thesis
    by (simp add: postprocess_gnf_fp_def postprocess_gnf_def xlim_rows_fp_exact)
next
  case (Inr data)
  have p: "power2 exact_ops lb = Num (lb\<^sup>2)"
    by (simp add: exact_ops_def)
  have xx: "map (\<lambda>r. fdiv (cell_n r) (Num (lb\<^sup>2))) (map as_floats data)
      = map (\<lambda>r. fdiv (Num (col_n r)) (Num (lb\<^sup>2))) data"
    by (simp add: as_floats_def o_def)
  have "fdiv (cell_d (as_floats r)) (fpow_half exact_ops (cell_n (as_floats r)))
      = fdiv (Num (col_d r)) (pow_half (col_n r))" for r
    by (simp only: as_floats_def float_row.simps fpow_half_exact)
  then have yy: "map (\<lambda>r. fdiv (cell_d r) (fpow_half exact_ops (cell_n r))) (map as_floats data)
      = map (\<lambda>r. fdiv (Num (col_d r)) (pow_half (col_n r))) data"
    by (simp add: o_def)
  have "postprocess_gnf_fp exact_ops (map as_floats gnf_data) lb xlim sparse
      = (let xx = map (\<lambda>r. fdiv (Num (col_n r)) (Num (lb\<^sup>2))) data;
             yy = map (\<lambda>r. fdiv (Num (col_d r)) (pow_half (col_n r))) data
         in (case yy of
               [] \<Rightarrow> Inl IndexError
             | y0 # _ \<Rightarrow>
                 let yy = map (\<lambda>y. fdiv y y0) yy
                 in (case sparsify xx sparse of
                       Inl e \<Rightarrow> Inl e
                     | Inr x \<Rightarrow>
                         (case sparsify yy sparse of
                            Inl e \<Rightarrow> Inl e
                          | Inr y \<Rightarrow> Inr (x, y)))))"
    unfolding postprocess_gnf_fp_def xlim_rows_fp_exact Inr p
    by (simp only: sum.case pyfloat.case fdiv_r_exact xx yy)
  also have "\<dots> = postprocess_gnf gnf_data lb xlim sparse"
    by (simp only: postprocess_gnf_def Inr sum.case)
  finally show ?thesis .
qed

text \<open>
  C3, as amended. When the selection by \<open>xlim\<close> raises no error and leaves at least one
  row, the square of \<open>lb\<close> does not overflow, the quotient \<open>d / n ** 0.5\<close> of the first
  selected row is computed as a finite number other than zero, and \<open>sparse\<close> is positive,
  \<open>postprocess_gnf\<close> returns and the first element of the \<open>y\<close> series is exactly 1. Of the
  arithmetic only this is used: a division whose exact result is 1 returns 1.
\<close>

theorem postprocess_gnf_fp_first_y:
  assumes "xlim_rows_fp ops gnf_data lb xlim = Inr (r # rs)"
    and "power2 ops lb = Num q"
    and "fdiv_r ops (cell_d r) (fpow_half ops (cell_n r)) = Num y0" and "y0 \<noteq> 0"
    and "rnd ops 1 = Num 1"
    and "0 < sparse"
  shows "\<exists>x ys. postprocess_gnf_fp ops gnf_data lb xlim sparse = Inr (x, Num 1 # ys)"
proof -
  have "fdiv_r ops (Num y0) (Num y0) = Num 1"
    using assms(4,5) by simp
  then show ?thesis
    using assms(1,2,3,6) by (simp add: postprocess_gnf_fp_def sparsify_pos Let_def)
qed

theorem postprocess_gnf_fp_first_y_witness:
  "\<exists>x ys. postprocess_gnf_fp exact_ops
       [\<lparr>cell_n = Num 25, cell_d = Num 10\<rparr>, \<lparr>cell_n = Num 100, cell_d = PInf\<rparr>] 10 (LInt 3) 3
     = Inr (x, Num 1 # ys)"
proof -
  have "xlim_rows_fp exact_ops
      [\<lparr>cell_n = Num 25, cell_d = Num 10\<rparr>, \<lparr>cell_n = Num 100, cell_d = PInf\<rparr>] 10 (LInt 3)
    = Inr [\<lparr>cell_n = Num 25, cell_d = Num 10\<rparr>, \<lparr>cell_n = Num 100, cell_d = PInf\<rparr>]"
    by (simp add: bound_exact)
  moreover have "power2 exact_ops 10 = Num 100"
    by (simp add: exact_ops_def)
  moreover have "fdiv_r exact_ops (cell_d \<lparr>cell_n = Num 25, cell_d = Num 10\<rparr>)
      (fpow_half exact_ops (cell_n \<lparr>cell_n = Num 25, cell_d = Num 10\<rparr>)) = Num (10 / sqrt 25)"
    by (simp add: exact_ops_def)
  moreover have "10 / sqrt 25 \<noteq> (0::real)"
    by simp
  moreover have "rnd exact_ops 1 = Num 1"
    by (simp add: exact_ops_def)
  ultimately show ?thesis
    by (rule postprocess_gnf_fp_first_y) simp
qed

text \<open>
  C3 as stated fails: a table whose first record has \<open>d = 0\<close> (what the estimator writes for
  an image sequence that does not change) gives \<open>nan\<close> as first \<open>y\<close>, and a table from which
  \<open>xlim\<close> leaves no row gives no series at all. On both inputs every exact result
  (\<open>25 / 100\<close>, the root of 25, \<open>0 / 5\<close>) is a double, so no operation rounds.
\<close>

theorem postprocess_gnf_fp_first_y_counterexample:
  "postprocess_gnf_fp exact_ops [\<lparr>cell_n = Num 25, cell_d = Num 0\<rparr>] 10 LNone 3
     = Inr ([Num (1 / 4)], [NaN])
   \<and> postprocess_gnf_fp exact_ops [\<lparr>cell_n = Num 25, cell_d = Num 10\<rparr>] 10 (LInt 0) 3
     = Inl IndexError"
  by (simp add: postprocess_gnf_fp_def sparsify_def exact_ops_def bound_def)

text \<open>
  The condition on the computed quotient is needed: with \<open>n = 4\<close> and \<open>d\<close> the smallest
  positive double the quotient underflows to zero and the first \<open>y\<close> is \<open>nan\<close>, and a \<open>nan\<close>
  cell gives \<open>nan\<close> in every arithmetic.
\<close>

lemma underflow_example:
  "postprocess_gnf_fp underflow_ops [\<lparr>cell_n = Num 4, cell_d = Num (1 / 2 ^ 1074)\<rparr>] 10 LNone 1
     = Inr ([Num (1 / 25)], [NaN])"
proof -
  have "sqrt 4 = (2::real)"
    using real_sqrt_abs [of 2] by simp
  then show ?thesis
    by (simp add: postprocess_gnf_fp_def sparsify_def underflow_ops_def)
qed

lemma nan_cell_example:
  assumes "power2 ops lb = Num q"
  shows "\<exists>x. postprocess_gnf_fp ops [\<lparr>cell_n = Num 4, cell_d = NaN\<rparr>] lb LNone 1 = Inr (x, [NaN])"
  using assms by (cases "power_half ops 4") (simp_all add: postprocess_gnf_fp_def sparsify_def)


section \<open>Properties of the smoothing\<close>

lemma map_of_smooth:
  "map_of (map (smooth_entry gf) data) kw =
     (if startswith kw ''t'' then map_of data kw
      else map_option (\<lambda>v. gf v (int (length v) div 15 + 1)) (map_of data kw))"
  by (induction data) (auto simp: smooth_entry_def)

lemma smooth_keys:
  assumes "kw \<in> fst ` set data"
  shows "map_of (map (smooth_entry gf) data) kw \<noteq> None"
proof -
  from assms have "map_of data kw \<noteq> None"
    by (simp add: map_of_eq_None_iff)
  then show ?thesis
    by (auto simp: map_of_smooth)
qed

lemma kinetics_eo_smooth_returns:
  assumes "set [''t0'', ''alpha'', ''t2'', ''E'', ''OP''] \<subseteq> fst ` set data"
  shows "kinetics_eo_smooth gf data = Inr (map (smooth_entry gf) data)"
proof -
  have "\<forall>kw \<in> set [''t0'', ''alpha'', ''t2'', ''E'', ''OP'']. map_of (map (smooth_entry gf) data) kw \<noteq> None"
    using assms smooth_keys by blast
  then show ?thesis
    unfolding kinetics_eo_smooth_def Let_def by (rule if_P)
qed

text \<open>
  C10. In the dictionary that \<open>kinetics_eo_smooth\<close> returns, an entry whose key starts with
  \<open>t\<close> is the entry of the input, and an entry whose key does not start with \<open>t\<close> is the
  Gaussian filter of the input entry with \<open>sigma = int(len / 15) + 1\<close>.
\<close>

theorem kinetics_eo_smooth_frame:
  assumes "kinetics_eo_smooth gf data = Inr new_data"
  shows "(startswith kw ''t'' \<longrightarrow> map_of new_data kw = map_of data kw)
    \<and> (\<not> startswith kw ''t'' \<longrightarrow>
          map_of new_data kw = map_option (\<lambda>v. gf v (int (length v) div 15 + 1)) (map_of data kw))"
proof -
  have "new_data = map (smooth_entry gf) data"
  proof (cases "\<forall>kw \<in> set [''t0'', ''alpha'', ''t2'', ''E'', ''OP'']. map_of (map (smooth_entry gf) data) kw \<noteq> None")
    case True
    then have "kinetics_eo_smooth gf data = Inr (map (smooth_entry gf) data)"
      unfolding kinetics_eo_smooth_def Let_def by (rule if_P)
    with assms show ?thesis by simp
  next
    case False
    then have "kinetics_eo_smooth gf data = Inl KeyError"
      unfolding kinetics_eo_smooth_def Let_def by (rule if_not_P)
    with assms show ?thesis by simp
  qed
  then show ?thesis
    by (simp add: map_of_smooth)
qed

theorem kinetics_eo_smooth_frame_witness:
  "\<forall>gf. \<exists>new_data. kinetics_eo_smooth gf kinetics_example = Inr new_data
     \<and> map_of new_data ''t2'' = Some [0, 2] \<and> map_of new_data ''E'' = Some (gf [3, 4] 1)"
proof
  fix gf
  have r: "kinetics_eo_smooth gf kinetics_example = Inr (map (smooth_entry gf) kinetics_example)"
    by (rule kinetics_eo_smooth_returns) (simp add: kinetics_example_def)
  have "map_of (map (smooth_entry gf) kinetics_example) ''t2'' = Some [0, 2]"
    using kinetics_eo_smooth_frame [OF r, of "''t2''"] by (simp add: startswith_def kinetics_example_def)
  moreover have "map_of (map (smooth_entry gf) kinetics_example) ''E'' = Some (gf [3, 4] 1)"
    using kinetics_eo_smooth_frame [OF r, of "''E''"] by (simp add: startswith_def kinetics_example_def)
  ultimately show "\<exists>new_data. kinetics_eo_smooth gf kinetics_example = Inr new_data
     \<and> map_of new_data ''t2'' = Some [0, 2] \<and> map_of new_data ''E'' = Some (gf [3, 4] 1)"
    using r by simp
qed

section \<open>Properties of the averaging\<close>

lemma add_col_scale:
  "add_col (map (map_option (\<lambda>a. real j * a)) c) c = map (map_option (\<lambda>a. real (Suc j) * a)) c"
  by (induction c) (auto simp: algebra_simps split: option.splits)

lemma select_is_scale: "select f names = scale 1 f names"
proof -
  have "map (map_option (\<lambda>a. real 1 * a)) c = c" for c :: column
    by (induction c) (simp_all add: option.map_ident)
  then show ?thesis
    by (simp add: select_def scale_def)
qed

lemma map_of_select:
  "l \<in> set names \<Longrightarrow> map_of (cols (select f names)) l = Some (the (map_of (cols f) l))"
  by (induction names) (auto simp: select_def)

lemma iadd_scale:
  "iadd (scale j f names) (select f names) = scale (Suc j) f names"
proof -
  have "map_of (cols (select f names)) l = Some (the (map_of (cols f) l))" if "l \<in> set names" for l
    using that by (rule map_of_select)
  then show ?thesis
    unfolding iadd_def scale_def
    by (simp add: add_col_scale del: of_nat_Suc)
qed

lemma read_files_same:
  assumes "set names \<subseteq> set (labels f)"
  shows "read_files names (Some (scale j f names, j, f)) (replicate m f)
    = Inr (Some (scale (j + m) f names, j + m, f))"
  using assms
proof (induction m arbitrary: j)
  case 0
  then show ?case by simp
next
  case (Suc m)
  have "\<not> (\<exists>label \<in> set names. label \<notin> set (labels f))"
    using Suc.prems by blast
  then show ?case
    using Suc.IH [OF Suc.prems, of "Suc j"] by (simp add: iadd_scale)
qed

lemma read_files_replicate:
  assumes "set names \<subseteq> set (labels f)" and "0 < k"
  shows "read_files names None (replicate k f) = Inr (Some (scale k f names, k, f))"
proof -
  obtain m where k: "k = Suc m"
    using assms(2) by (cases k) auto
  have "\<not> (\<exists>label \<in> set names. label \<notin> set (labels f))"
    using assms(1) by blast
  then show ?thesis
    using read_files_same [OF assms(1), of 1 m] by (simp add: k select_is_scale)
qed

lemma map_of_tabulate:
  "map_of (map (\<lambda>l. (l, g l)) names) l = (if l \<in> set names then Some (g l) else None)"
  by (induction names) auto

lemma map_of_labels: "l \<in> set (labels f) \<Longrightarrow> map_of (cols f) l = Some (the (map_of (cols f) l))"
  by (cases "map_of (cols f) l") (auto simp: labels_def map_of_eq_None_iff)

lemma wf_frame_length:
  "wf_frame f \<Longrightarrow> map_of (cols f) l = Some c \<Longrightarrow> length c = nrows f"
  by (auto simp: wf_frame_def dest: map_of_SomeD)

lemma pad_full: "m \<le> length c \<Longrightarrow> pad m c = c"
  by (simp add: pad_def)

lemma map_of_concat_left:
  assumes "l \<in> fst ` set (cols a)"
  shows "map_of (cols (concat_axis1 a b)) l
    = map_option (pad (max (nrows a) (nrows b))) (map_of (cols a) l)"
proof -
  from assms obtain c where "map_of (cols a) l = Some c"
    by (cases "map_of (cols a) l") (auto simp: map_of_eq_None_iff)
  then show ?thesis
    by (simp add: concat_axis1_def Let_def map_of_map map_add_def)
qed

lemma map_of_concat_right:
  assumes "l \<notin> fst ` set (cols a)"
  shows "map_of (cols (concat_axis1 a b)) l
    = map_option (pad (max (nrows a) (nrows b))) (map_of (cols b) l)"
proof -
  from assms have "map_of (cols a) l = None"
    by (simp add: map_of_eq_None_iff)
  then show ?thesis
    by (simp add: concat_axis1_def Let_def map_of_map map_add_def split: option.splits)
qed

lemma unscale:
  "0 < k \<Longrightarrow> map (map_option (\<lambda>a. a / real k)) (map (map_option (\<lambda>a. real k * a)) c) = c"
  by (induction c) (auto simp: option.map_comp o_def option.map_ident)

lemma div_scale:
  assumes "0 < k"
  shows "div_frame (scale k f names) k = select f names"
proof -
  have "map (\<lambda>(l, c). (l, map (map_option (\<lambda>a. a / real k)) c))
          (map (\<lambda>l. (l, map (map_option (\<lambda>a. real k * a)) (the (map_of (cols f) l)))) names)
      = map (\<lambda>l. (l, the (map_of (cols f) l))) names"
    by (induction names) (simp_all add: unscale [OF assms] del: map_map)
  then show ?thesis
    by (simp add: div_frame_def scale_def select_def del: map_map)
qed

text \<open>
  C7. For \<open>k \<ge> 1\<close> files with the same contents, which hold the requested columns,
  \<open>average_data\<close> returns a table in which every requested column is the column of the file.
\<close>

theorem average_data_identical:
  assumes "0 < k" and "set columns \<subseteq> set (labels f)" and "wf_frame f"
  shows "\<exists>averaged. average_data (replicate k f) columns = Inr averaged
    \<and> (\<forall>label \<in> set columns. map_of (cols averaged) label = map_of (cols f) label)"
proof -
  define other_cols where "other_cols = filter (\<lambda>label. label \<notin> set columns) (labels f)"
  define averaged where "averaged = concat_axis1 (select f columns) (select f other_cols)"
  have res: "average_data (replicate k f) columns = Inr averaged"
    by (simp add: average_data_def read_files_replicate [OF assms(2,1)] averaged_def
        other_cols_def Let_def div_scale [OF assms(1)])
  have "map_of (cols averaged) label = map_of (cols f) label" if "label \<in> set columns" for label
  proof -
    from that assms(2) have "label \<in> set (labels f)"
      by blast
    then obtain c where c: "map_of (cols f) label = Some c"
      using map_of_labels by blast
    then have len: "length c = nrows f"
      using assms(3) by (rule wf_frame_length [rotated])
    have nr: "max (nrows (select f columns)) (nrows (select f other_cols)) = nrows f"
      by (simp add: select_def)
    have left: "map_of (cols (select f columns)) label = Some c"
      using that c by (simp add: map_of_select)
    then have "label \<in> fst ` set (cols (select f columns))"
      by (metis map_of_eq_None_iff option.distinct(1))
    then have "map_of (cols averaged) label
        = map_option (pad (max (nrows (select f columns)) (nrows (select f other_cols))))
            (map_of (cols (select f columns)) label)"
      unfolding averaged_def by (rule map_of_concat_left)
    also have "\<dots> = Some (pad (nrows f) c)"
      by (simp only: left nr option.map)
    also have "\<dots> = Some c"
      by (simp add: pad_full len)
    finally show ?thesis
      by (simp add: c)
  qed
  with res show ?thesis
    by blast
qed

theorem average_data_identical_witness:
  "\<exists>averaged. average_data (replicate 3 table_two_rows) [''CA'', ''CV''] = Inr averaged
    \<and> map_of (cols averaged) ''CA'' = Some [Some 1, Some (1/2)]
    \<and> map_of (cols averaged) ''CV'' = Some [Some 1, Some (1/4)]"
  using average_data_identical [of 3 "[''CA'', ''CV'']" table_two_rows]
  by (simp add: table_two_rows_def labels_def wf_frame_def)

lemma read_files_state:
  assumes "\<forall>f \<in> set files. set names \<subseteq> set (labels f)"
  shows "\<exists>temp'. read_files names (Some (temp, k, data)) files
            = Inr (Some (temp', k + length files, last (data # files)))
          \<and> nrows temp' = nrows temp \<and> map fst (cols temp') = map fst (cols temp)"
  using assms
proof (induction files arbitrary: temp k data)
  case Nil
  then show ?case by simp
next
  case (Cons f files)
  have ok: "\<not> (\<exists>label \<in> set names. label \<notin> set (labels f))"
    using Cons.prems by auto
  have rest: "\<forall>f \<in> set files. set names \<subseteq> set (labels f)"
    using Cons.prems by simp
  obtain temp' where
    "read_files names (Some (iadd temp (select f names), k + 1, f)) files
       = Inr (Some (temp', k + 1 + length files, last (f # files)))"
    "nrows temp' = nrows (iadd temp (select f names))"
    "map fst (cols temp') = map fst (cols (iadd temp (select f names)))"
    using Cons.IH [OF rest] by blast
  moreover have "nrows (iadd temp (select f names)) = nrows temp"
    by (simp add: iadd_def)
  moreover have "map fst (cols (iadd temp (select f names))) = map fst (cols temp)"
    by (simp add: iadd_def case_prod_unfold o_def)
  ultimately show ?case
    using ok by simp
qed

lemma read_files_first:
  assumes "files \<noteq> []" and "\<forall>f \<in> set files. set names \<subseteq> set (labels f)"
  shows "\<exists>temp. read_files names None files = Inr (Some (temp, length files, last files))
          \<and> nrows temp = nrows (hd files) \<and> map fst (cols temp) = names"
proof -
  obtain f rest where files: "files = f # rest"
    using assms(1) by (cases files) auto
  have ok: "\<not> (\<exists>label \<in> set names. label \<notin> set (labels f))"
    using assms(2) files by auto
  have "\<forall>f \<in> set rest. set names \<subseteq> set (labels f)"
    using assms(2) files by simp
  from read_files_state [OF this, of "select f names" 1 f]
  obtain temp where
    "read_files names (Some (select f names, 1, f)) rest
       = Inr (Some (temp, 1 + length rest, last (f # rest)))"
    "nrows temp = nrows (select f names)"
    "map fst (cols temp) = map fst (cols (select f names))"
    by blast
  moreover have "nrows (select f names) = nrows f" and "map fst (cols (select f names)) = names"
    by (simp_all add: select_def o_def)
  ultimately show ?thesis
    using ok files by simp
qed

text \<open>
  C9, as amended. When every file holds the requested columns and the first file read has
  no more rows than the last one, every column of the result that is not listed in
  \<open>columns\<close> is the column of the last file read, and the result has no such column that
  the last file lacks.
\<close>

theorem average_data_other_columns:
  assumes "files \<noteq> []" and "\<forall>f \<in> set files. set columns \<subseteq> set (labels f)"
    and "nrows (hd files) \<le> nrows (last files)" and "wf_frame (last files)"
  shows "\<exists>averaged. average_data files columns = Inr averaged
    \<and> (\<forall>label. label \<notin> set columns \<longrightarrow>
          map_of (cols averaged) label = map_of (cols (last files)) label)"
proof -
  define data where "data = last files"
  define other_cols where "other_cols = filter (\<lambda>label. label \<notin> set columns) (labels data)"
  obtain temp where temp:
    "read_files columns None files = Inr (Some (temp, length files, data))"
    "nrows temp = nrows (hd files)" "map fst (cols temp) = columns"
    using read_files_first [OF assms(1,2)] unfolding data_def by blast
  define a where "a = div_frame temp (length files)"
  define averaged where "averaged = concat_axis1 a (select data other_cols)"
  have res: "average_data files columns = Inr averaged"
    by (simp add: average_data_def temp(1) averaged_def a_def other_cols_def Let_def)
  have "map fst (cols a) = columns"
    using temp(3) by (simp add: a_def div_frame_def case_prod_unfold o_def)
  then have keys: "fst ` set (cols a) = set columns"
    by (metis list.set_map)
  have m: "max (nrows a) (nrows (select data other_cols)) = nrows data"
    using assms(3) temp(2) by (simp add: a_def div_frame_def select_def data_def)
  have "map_of (cols averaged) label = map_of (cols data) label" if "label \<notin> set columns" for label
  proof -
    have "map_of (cols averaged) label
        = map_option (pad (nrows data)) (map_of (cols (select data other_cols)) label)"
      unfolding averaged_def using that keys m by (simp add: map_of_concat_right)
    also have "\<dots> = map_of (cols data) label"
    proof (cases "label \<in> set (labels data)")
      case True
      then obtain c where c: "map_of (cols data) label = Some c"
        using map_of_labels by blast
      then have "length c = nrows data"
        using assms(4) unfolding data_def by (rule wf_frame_length [rotated])
      moreover have "map_of (cols (select data other_cols)) label = Some c"
        using True that c by (simp add: map_of_select other_cols_def)
      ultimately show ?thesis
        by (simp add: c pad_full)
    next
      case False
      then have "map_of (cols data) label = None"
        by (simp add: labels_def map_of_eq_None_iff)
      moreover have "map_of (cols (select data other_cols)) label = None"
        using False by (simp add: select_def map_of_tabulate other_cols_def)
      ultimately show ?thesis
        by simp
    qed
    finally show ?thesis .
  qed
  with res show ?thesis
    unfolding data_def by blast
qed

theorem average_data_other_columns_witness:
  "\<exists>averaged. average_data [table_one_row, table_two_rows] [''CA'', ''CV''] = Inr averaged
    \<and> map_of (cols averaged) ''R'' = Some [Some 0, Some 1]"
proof -
  have "\<exists>averaged. average_data [table_one_row, table_two_rows] [''CA'', ''CV''] = Inr averaged
    \<and> (\<forall>label. label \<notin> set [''CA'', ''CV''] \<longrightarrow>
          map_of (cols averaged) label = map_of (cols (last [table_one_row, table_two_rows])) label)"
    by (rule average_data_other_columns) (simp_all add: table_two_rows_def table_one_row_def labels_def wf_frame_def)
  then obtain averaged where "average_data [table_one_row, table_two_rows] [''CA'', ''CV''] = Inr averaged"
    and "\<forall>label. label \<notin> set [''CA'', ''CV''] \<longrightarrow>
          map_of (cols averaged) label = map_of (cols (last [table_one_row, table_two_rows])) label"
    by blast
  moreover from this(2) have "map_of (cols averaged) ''R'' = map_of (cols table_two_rows) ''R''"
    by simp
  ultimately show ?thesis
    by (simp add: table_two_rows_def)
qed

text \<open>
  C9 as stated fails when the first file is longer than the last: the sum keeps the two
  rows of the first file, and the column \<open>R\<close> of the last file, which has one row, comes
  out with a missing cell appended.
\<close>

theorem average_data_other_columns_counterexample:
  "average_data [table_two_rows, table_one_row] [''CA'', ''CV'']
     = Inr \<lparr>nrows = 2, cols = [(''CA'', [Some 3, None]), (''CV'', [Some 2, None]),
                                (''R'', [Some 7, None])]\<rparr>
   \<and> map_of (cols table_one_row) ''R'' = Some [Some 7]"
proof -
  have l1: "labels table_two_rows = [''R'', ''CA'', ''CV'']" and l2: "labels table_one_row = [''R'', ''CA'', ''CV'']"
    by (simp_all add: labels_def table_two_rows_def table_one_row_def)
  have s1: "select table_two_rows [''CA'', ''CV'']
      = \<lparr>nrows = 2, cols = [(''CA'', [Some 1, Some (1/2)]), (''CV'', [Some 1, Some (1/4)])]\<rparr>"
    by (simp add: select_def table_two_rows_def)
  have s2: "select table_one_row [''CA'', ''CV''] = \<lparr>nrows = 1, cols = [(''CA'', [Some 5]), (''CV'', [Some 3])]\<rparr>"
    by (simp add: select_def table_one_row_def)
  have s3: "select table_one_row [''R''] = \<lparr>nrows = 1, cols = [(''R'', [Some 7])]\<rparr>"
    by (simp add: select_def table_one_row_def)
  have r: "read_files [''CA'', ''CV''] None [table_two_rows, table_one_row]
      = Inr (Some (\<lparr>nrows = 2, cols = [(''CA'', [Some 6, None]), (''CV'', [Some 4, None])]\<rparr>, 2, table_one_row))"
    by (simp add: l1 l2 s1 s2 iadd_def)
  have "average_data [table_two_rows, table_one_row] [''CA'', ''CV'']
     = Inr \<lparr>nrows = 2, cols = [(''CA'', [Some 3, None]), (''CV'', [Some 2, None]),
                                (''R'', [Some 7, None])]\<rparr>"
    unfolding average_data_def r
    by (simp add: l2 s3 div_frame_def concat_axis1_def pad_def)
  moreover have "map_of (cols table_one_row) ''R'' = Some [Some 7]"
    by (simp add: table_one_row_def)
  ultimately show ?thesis
    by simp
qed

section \<open>Properties of the window sizes\<close>

lemma set_unique: "set (unique xs) = set xs"
  by (simp add: unique_def)

lemma sorted_unique: "sorted_wrt (<) (unique xs)"
  by (simp add: unique_def strict_sorted_iff)

lemma logspace_elem:
  assumes "x \<in> set (logspace a b 100)"
  obtains i :: nat where "i \<le> 99" and "x = 10 powr (a + real i * ((b - a) / 99))"
proof -
  from assms obtain i :: nat where "i < 100" and "x = 10 powr (a + real i * ((b - a) / 99))"
    unfolding logspace_def by auto
  then show thesis
    using that [of i] by simp
qed

lemma logspace_bounds:
  assumes "a \<le> b" and "x \<in> set (logspace a b 100)"
  shows "10 powr a \<le> x \<and> x \<le> 10 powr b"
proof -
  from assms(2) obtain i :: nat where i: "i \<le> 99"
    and x: "x = 10 powr (a + real i * ((b - a) / 99))"
    by (rule logspace_elem)
  have "0 \<le> real i * ((b - a) / 99)"
    using assms(1) by simp
  moreover have "real i * ((b - a) / 99) \<le> 99 * ((b - a) / 99)"
    using assms(1) i by (intro mult_right_mono) simp_all
  ultimately have "a \<le> a + real i * ((b - a) / 99)" and "a + real i * ((b - a) / 99) \<le> b"
    by simp_all
  then show ?thesis
    unfolding x by (simp add: powr_mono)
qed

lemma boxsize_elem:
  assumes "s \<in> set (boxsize L)"
  obtains x where "s = real_of_int \<lfloor>x\<rfloor>"
    and "x \<in> set (logspace (log 10 5) (log 10 ((real_of_int L - 5) / 2)) 100)"
  using assms unfolding boxsize_def by (auto simp: set_unique size_min_def)

lemma boxsize_bounds:
  assumes "5 \<le> (real_of_int L - 5) / 2" and "s \<in> set (boxsize L)"
  shows "5 \<le> s \<and> s \<le> (real_of_int L - 5) / 2"
proof -
  from assms(2) obtain x where s: "s = real_of_int \<lfloor>x\<rfloor>"
    and x: "x \<in> set (logspace (log 10 5) (log 10 ((real_of_int L - 5) / 2)) 100)"
    by (rule boxsize_elem)
  have "log 10 5 \<le> log 10 ((real_of_int L - 5) / 2)"
    using assms(1) by simp
  then have "10 powr log 10 5 \<le> x \<and> x \<le> 10 powr log 10 ((real_of_int L - 5) / 2)"
    using x by (rule logspace_bounds)
  then have "5 \<le> x" and "x \<le> (real_of_int L - 5) / 2"
    using assms(1) by simp_all
  then have "5 \<le> \<lfloor>x\<rfloor>" and "real_of_int \<lfloor>x\<rfloor> \<le> (real_of_int L - 5) / 2"
    by (simp_all add: le_floor_iff) linarith
  then show ?thesis
    unfolding s by simp
qed

text \<open>
  C5. When \<open>size_min \<le> (L - size_min) / 2\<close>, every window size derived for the shorter side
  \<open>L\<close> lies between \<open>size_min\<close> and \<open>(L - size_min) / 2\<close>, hence is at most half of \<open>L\<close>.
\<close>

theorem boxsize_range:
  assumes "real size_min \<le> (real_of_int L - real size_min) / 2"
  shows "\<forall>s \<in> set (boxsize L).
      real size_min \<le> s \<and> s \<le> (real_of_int L - real size_min) / 2 \<and> s \<le> real_of_int L / 2"
proof
  fix s assume "s \<in> set (boxsize L)"
  with assms have "5 \<le> s \<and> s \<le> (real_of_int L - 5) / 2"
    by (intro boxsize_bounds) (simp_all add: size_min_def)
  then show "real size_min \<le> s \<and> s \<le> (real_of_int L - real size_min) / 2 \<and> s \<le> real_of_int L / 2"
    by (simp add: size_min_def)
qed

lemma remdups_replicate_Suc: "remdups (replicate (Suc k) x) = [x]"
  by (induction k) simp_all

lemma boxsize_15: "boxsize 15 = [5]"
proof -
  have "logspace (log 10 5) (log 10 ((real_of_int 15 - 5) / 2)) 100 = replicate 100 5"
    by (simp add: logspace_def map_replicate_const)
  then show ?thesis
    using remdups_replicate_Suc [of 99 "5::real"]
    by (simp add: boxsize_def size_min_def unique_def)
qed

theorem boxsize_range_witness:
  "real size_min \<le> (real_of_int 15 - real size_min) / 2
   \<and> boxsize 15 = [5]
   \<and> real size_min \<le> 5 \<and> (5::real) \<le> (real_of_int 15 - real size_min) / 2
   \<and> (5::real) \<le> real_of_int 15 / 2"
proof -
  have "real size_min \<le> (real_of_int 15 - real size_min) / 2"
    by (simp add: size_min_def)
  then have "\<forall>s \<in> set (boxsize 15).
      real size_min \<le> s \<and> s \<le> (real_of_int 15 - real size_min) / 2 \<and> s \<le> real_of_int 15 / 2"
    by (rule boxsize_range)
  then show ?thesis
    by (simp add: boxsize_15 size_min_def)
qed

section \<open>Properties of the estimator\<close>

subsection \<open>Dropping duplicates and other list facts\<close>

lemma set_drop_duplicates: "set (drop_duplicates xs) = set xs"
  by (induction xs rule: drop_duplicates.induct) auto

lemma distinct_drop_duplicates: "distinct (drop_duplicates xs)"
  by (induction xs rule: drop_duplicates.induct) (auto simp: set_drop_duplicates)

lemma drop_duplicates_append_subset:
  "distinct xs \<Longrightarrow> set ys \<subseteq> set xs \<Longrightarrow> drop_duplicates (xs @ ys) = xs"
proof (induction xs arbitrary: ys)
  case Nil
  then show ?case by simp
next
  case (Cons x xs)
  have "removeAll x (xs @ ys) = xs @ removeAll x ys"
    using Cons.prems(1) by simp
  moreover have "set (removeAll x ys) \<subseteq> set xs"
    using Cons.prems(2) by auto
  ultimately show ?case
    using Cons.IH [of "removeAll x ys"] Cons.prems(1) by simp
qed

lemma filter_eq_upt: "filter (\<lambda>k. k = j) [0..<m] = (if j < m then [j] else [])"
  by (induction m) auto

lemma concat_map_pick:
  "distinct xs \<Longrightarrow> concat (map (\<lambda>b. if b = s then g b else []) xs) = (if s \<in> set xs then g s else [])"
  by (induction xs) auto

lemma concat_map_if_single:
  "concat (map (\<lambda>x. if P x then [g x] else []) xs) = map g (filter P xs)"
  by (induction xs) auto

lemma filter_concat_map: "filter P (concat (map g xs)) = concat (map (\<lambda>x. filter P (g x)) xs)"
  by (induction xs) auto

lemma map_concat_map: "map h (concat (map g xs)) = concat (map (\<lambda>x. map h (g x)) xs)"
  by (induction xs) auto

subsection \<open>The rows of \<open>df\<close>\<close>

lemma tempdf_cells:
  "tempdf dw name img = (\<lambda>b. map (sample_of dw (name, img) b) [0..<length (windows_of dw (name, img) b)])"
  by (rule ext) (simp add: tempdf_def sample_of_def windows_of_def Let_def)

lemma framedf_cells:
  "framedf dw bs = (\<lambda>frame. concat (map (\<lambda>b. map (sample_of dw frame b) [0..<length (windows_of dw frame b)]) bs))"
  by (rule ext) (simp add: framedf_def tempdf_cells split: prod.splits)

lemma df_cells:
  "df dw bs frames
     = concat (map (\<lambda>frame. concat (map (\<lambda>b. map (sample_of dw frame b) [0..<length (windows_of dw frame b)]) bs)) frames)"
  by (simp add: df_def framedf_cells)

lemma filter_number_cells:
  "filter (\<lambda>r. col_number r = j) (map (sample_of dw frame b) [0..<m])
     = (if j < m then [sample_of dw frame b j] else [])"
proof -
  have "filter (\<lambda>r. col_number r = j) (map (sample_of dw frame b) [0..<m])
      = map (sample_of dw frame b) (filter (\<lambda>k. k = j) [0..<m])"
    by (simp add: filter_map o_def sample_of_def)
  then show ?thesis
    by (simp add: filter_eq_upt)
qed

text \<open>The table \<open>subdata1\<close>: the rows of window \<open>j\<close>.\<close>

lemma subdata1_cells:
  "filter (\<lambda>r. col_number r = j) (df dw bs frames)
     = concat (map (\<lambda>frame. concat (map (\<lambda>b. if j < length (windows_of dw frame b)
         then [sample_of dw frame b j] else []) bs)) frames)"
  by (simp add: df_cells filter_concat_map filter_number_cells cong: map_cong)

lemma subdata1_cells':
  "filter (\<lambda>r. col_number r = j) (df dw bs frames)
     = concat (map (\<lambda>frame. map (\<lambda>b. sample_of dw frame b j)
         (filter (\<lambda>b. j < length (windows_of dw frame b)) bs)) frames)"
  by (simp add: subdata1_cells concat_map_if_single)

subsection \<open>The rows of \<open>df_out\<close>\<close>

lemma df_out_rows:
  "df_out rows =
     concat (map (\<lambda>j. map (row_of rows j)
         (drop_duplicates (map col_size (filter (\<lambda>r. col_number r = j) rows))))
       (drop_duplicates (map col_number rows)))"
  unfolding df_out_def row_of_def Let_def by (rule refl)

lemma filter_size_row_of:
  "distinct xs \<Longrightarrow>
     filter (\<lambda>r. out_size r = s) (map (row_of rows j) xs) = (if s \<in> set xs then [row_of rows j s] else [])"
  by (induction xs) (auto simp: row_of_def)

lemma filter_size_df_out:
  "filter (\<lambda>r. out_size r = s) (df_out rows)
     = map (\<lambda>j. row_of rows j s)
         (filter (\<lambda>j. \<exists>r \<in> set rows. col_number r = j \<and> col_size r = s)
            (drop_duplicates (map col_number rows)))"
proof -
  have "filter (\<lambda>r. out_size r = s)
          (map (row_of rows j) (drop_duplicates (map col_size (filter (\<lambda>r. col_number r = j) rows))))
      = (if \<exists>r \<in> set rows. col_number r = j \<and> col_size r = s then [row_of rows j s] else [])" for j
    by (auto simp: filter_size_row_of distinct_drop_duplicates set_drop_duplicates)
  then show ?thesis
    by (simp add: df_out_rows filter_concat_map concat_map_if_single)
qed

lemma sizes_df_out:
  "map out_size (df_out rows)
     = concat (map (\<lambda>j. drop_duplicates (map col_size (filter (\<lambda>r. col_number r = j) rows)))
         (drop_duplicates (map col_number rows)))"
proof -
  have "map out_size (map (row_of rows j) xs) = xs" for j xs
    by (induction xs) (simp_all add: row_of_def)
  then show ?thesis
    by (simp add: df_out_rows map_concat_map del: map_map)
qed

lemma set_sizes_df_out: "set (map out_size (df_out rows)) \<subseteq> col_size ` set rows"
  by (auto simp: sizes_df_out set_drop_duplicates)

lemma size_in_df: "r \<in> set (df dw bs frames) \<Longrightarrow> col_size r \<in> set bs"
  by (auto simp: df_cells sample_of_def)

lemma sample_in_df:
  assumes "frame \<in> set frames" and "b \<in> set bs" and "k < length (windows_of dw frame b)"
  shows "sample_of dw frame b k \<in> set (df dw bs frames)"
proof -
  have "sample_of dw frame b k \<in> sample_of dw frame b ` {0..<length (windows_of dw frame b)}"
    using assms(3) by simp
  then have "\<exists>b' \<in> set bs. sample_of dw frame b k \<in> sample_of dw frame b' ` {0..<length (windows_of dw frame b')}"
    using assms(2) by blast
  then have "\<exists>f \<in> set frames. \<exists>b' \<in> set bs. sample_of dw frame b k \<in> sample_of dw f b' ` {0..<length (windows_of dw f b')}"
    using assms(1) by blast
  then show ?thesis
    by (simp add: df_cells)
qed

subsection \<open>The order of the sizes in the output\<close>

lemma subdata1_zero:
  assumes "windows_everywhere dw bs frames"
  shows "map col_size (filter (\<lambda>r. col_number r = 0) (df dw bs frames))
    = concat (map (\<lambda>frame. bs) frames)"
proof -
  have "map (\<lambda>b. sample_of dw frame b 0) (filter (\<lambda>b. 0 < length (windows_of dw frame b)) bs)
      = map (\<lambda>b. sample_of dw frame b 0) bs" if "frame \<in> set frames" for frame
  proof -
    have "filter (\<lambda>b. 0 < length (windows_of dw frame b)) bs = bs"
      using assms that by (auto simp: windows_everywhere_def windows_of_def filter_id_conv)
    then show ?thesis by simp
  qed
  then have "filter (\<lambda>r. col_number r = 0) (df dw bs frames)
      = concat (map (\<lambda>frame. map (\<lambda>b. sample_of dw frame b 0) bs) frames)"
    by (simp add: subdata1_cells' cong: map_cong)
  moreover have "map col_size (map (\<lambda>b. sample_of dw frame b 0) bs) = bs" for frame
    by (induction bs) (simp_all add: sample_of_def)
  ultimately show ?thesis
    by (simp add: map_concat_map del: map_map)
qed

lemma sizes_zero:
  assumes "windows_everywhere dw bs frames" and "frames \<noteq> []" and "distinct bs"
  shows "drop_duplicates (map col_size (filter (\<lambda>r. col_number r = 0) (df dw bs frames))) = bs"
proof -
  obtain f fs where frames: "frames = f # fs"
    using assms(2) by (cases frames) auto
  have "map col_size (filter (\<lambda>r. col_number r = 0) (df dw bs frames))
      = bs @ concat (map (\<lambda>frame. bs) fs)"
    using subdata1_zero [OF assms(1)] by (simp add: frames)
  moreover have "set (concat (map (\<lambda>frame. bs) fs)) \<subseteq> set bs"
    by auto
  ultimately show ?thesis
    using assms(3) by (simp add: drop_duplicates_append_subset)
qed

lemma numbers_zero:
  assumes "windows_everywhere dw bs frames" and "frames \<noteq> []" and "bs \<noteq> []"
  shows "\<exists>rest. drop_duplicates (map col_number (df dw bs frames)) = 0 # rest"
proof -
  obtain f fs where frames: "frames = f # fs"
    using assms(2) by (cases frames) auto
  obtain b bs' where bs: "bs = b # bs'"
    using assms(3) by (cases bs) auto
  have "windows_of dw f b \<noteq> []"
    using assms(1) by (simp add: windows_everywhere_def windows_of_def frames bs)
  then have "[0..<length (windows_of dw f b)] = 0 # [1..<length (windows_of dw f b)]"
    by (simp add: upt_conv_Cons)
  then have "\<exists>xs. map col_number (df dw bs frames) = 0 # xs"
    by (simp add: df_cells frames bs sample_of_def)
  then show ?thesis
    by auto
qed

lemma sizes_out:
  assumes "windows_everywhere dw bs frames" and "frames \<noteq> []" and "bs \<noteq> []" and "distinct bs"
  shows "drop_duplicates (map out_size (df_out (df dw bs frames))) = bs"
proof -
  obtain rest where rest: "drop_duplicates (map col_number (df dw bs frames)) = 0 # rest"
    using numbers_zero [OF assms(1-3)] by blast
  define tail where "tail = concat (map (\<lambda>j. drop_duplicates (map col_size
      (filter (\<lambda>r. col_number r = j) (df dw bs frames)))) rest)"
  have split: "map out_size (df_out (df dw bs frames)) = bs @ tail"
    by (simp add: sizes_df_out rest sizes_zero [OF assms(1,2,4)] tail_def)
  have "set (map out_size (df_out (df dw bs frames))) \<subseteq> set bs"
    using set_sizes_df_out [of "df dw bs frames"] size_in_df [of _ dw bs frames] by blast
  then have "set tail \<subseteq> set bs"
    unfolding split by simp
  then show ?thesis
    unfolding split using assms(4) by (rule drop_duplicates_append_subset [rotated])
qed

lemma numbers_of_zero:
  assumes "windows_everywhere dw bs frames" and "frames \<noteq> []" and "s \<in> set bs"
  shows "0 \<in> set (numbers_of (df dw bs frames) s)"
proof -
  obtain f fs where frames: "frames = f # fs"
    using assms(2) by (cases frames) auto
  have "windows_of dw f s \<noteq> []"
    using assms(1,3) by (simp add: windows_everywhere_def windows_of_def frames)
  then have "sample_of dw f s 0 \<in> set (df dw bs frames)"
    using assms(3) by (intro sample_in_df) (simp_all add: frames)
  moreover have "col_number (sample_of dw f s 0) = 0" and "col_size (sample_of dw f s 0) = s"
    by (simp_all add: sample_of_def)
  ultimately show ?thesis
    unfolding numbers_of_def set_filter set_drop_duplicates
    by (metis (mono_tags, lifting) image_eqI list.set_map mem_Collect_eq)
qed

lemma mean_const: "xs \<noteq> [] \<Longrightarrow> mean (map (\<lambda>x. c) xs) = c"
  by (simp add: mean_def map_replicate_const sum_list_replicate)

lemma average_rows:
  assumes "windows_everywhere dw bs frames" and "frames \<noteq> []" and "bs \<noteq> []" and "distinct bs"
  shows "average (df_out (df dw bs frames))
    = map (\<lambda>s. \<lparr>col_n = s\<^sup>2,
                 col_d = mean (map (\<lambda>j. col_d (row_of (df dw bs frames) j s))
                           (numbers_of (df dw bs frames) s))\<rparr>) bs"
proof -
  define rows where "rows = df dw bs frames"
  have "(let subdata = filter (\<lambda>r. out_size r = s) (df_out rows)
         in \<lparr>col_n = mean (map col_n subdata), col_d = mean (map col_d subdata)\<rparr>)
      = \<lparr>col_n = s\<^sup>2, col_d = mean (map (\<lambda>j. col_d (row_of rows j s)) (numbers_of rows s))\<rparr>"
    if "s \<in> set bs" for s
  proof -
    have sub: "filter (\<lambda>r. out_size r = s) (df_out rows) = map (\<lambda>j. row_of rows j s) (numbers_of rows s)"
      by (simp add: filter_size_df_out numbers_of_def)
    have "numbers_of rows s \<noteq> []"
      using numbers_of_zero [OF assms(1,2) that] unfolding rows_def by auto
    then have "mean (map col_n (map (\<lambda>j. row_of rows j s) (numbers_of rows s))) = s\<^sup>2"
      by (simp add: o_def row_of_def mean_const)
    then show ?thesis
      by (simp add: sub Let_def o_def)
  qed
  then show ?thesis
    unfolding average_def sizes_out [OF assms] rows_def [symmetric]
    using sizes_out [OF assms] by (simp add: rows_def cong: map_cong)
qed

subsection \<open>Facts about the window sizes\<close>

lemma distinct_boxsize: "distinct (boxsize L)"
  by (simp add: boxsize_def unique_def)

lemma sorted_boxsize: "sorted_wrt (<) (boxsize L)"
  by (simp add: boxsize_def sorted_unique)

lemma boxsize_nonempty: "boxsize L \<noteq> []"
proof -
  have "set (boxsize L) \<noteq> {}"
    by (simp add: boxsize_def set_unique logspace_def)
  then show ?thesis by auto
qed

lemma boxsize_nonneg: "s \<in> set (boxsize L) \<Longrightarrow> 0 \<le> s"
proof -
  assume "s \<in> set (boxsize L)"
  then obtain x where s: "s = real_of_int \<lfloor>x\<rfloor>"
    and "x \<in> set (logspace (log 10 5) (log 10 ((real_of_int L - 5) / 2)) 100)"
    by (rule boxsize_elem)
  then have "0 < x"
    by (auto simp: logspace_def)
  then show ?thesis
    unfolding s by simp
qed

lemma sorted_squares:
  "sorted_wrt (<) xs \<Longrightarrow> \<forall>x \<in> set xs. (0::real) \<le> x \<Longrightarrow> sorted_wrt (<) (map (\<lambda>s. s\<^sup>2) xs)"
  by (induction xs) (auto simp: power2_eq_square intro: mult_strict_mono')

subsection \<open>One record per window size\<close>

lemma df2_returns:
  assumes "frames = (name, img) # rest" and "int size_min < shorter_side img"
    and "windows_everywhere dw (boxsize (shorter_side img)) frames"
  shows "df2 dw frames = Inr (average (df_out (df dw (boxsize (shorter_side img)) frames)))"
proof -
  have "frames \<noteq> []"
    using assms(1) by simp
  with assms(3) have "drop_duplicates (map out_size (df_out (df dw (boxsize (shorter_side img)) frames)))
      = boxsize (shorter_side img)"
    by (intro sizes_out boxsize_nonempty distinct_boxsize)
  then have "df_out (df dw (boxsize (shorter_side img)) frames) \<noteq> []"
    using boxsize_nonempty [of "shorter_side img"] by auto
  then show ?thesis
    using assms(2) by (simp add: df2_def assms(1) Let_def)
qed

text \<open>
  C6. For a sequence with a first frame whose shorter side exceeds \<open>size_min\<close> and in which
  every frame has a window of every size, the script returns a table with exactly one
  record per window size, in the order of the sizes, with \<open>n\<close> the squared size; the \<open>n\<close>
  are strictly increasing.
\<close>

theorem df2_one_record_per_size:
  assumes "frames = (name, img) # rest" and "int size_min < shorter_side img"
    and "windows_everywhere dw (boxsize (shorter_side img)) frames"
  shows "\<exists>out. df2 dw frames = Inr out
    \<and> map col_n out = map (\<lambda>s. s\<^sup>2) (boxsize (shorter_side img))
    \<and> sorted_wrt (<) (map col_n out)"
proof -
  define bs where "bs = boxsize (shorter_side img)"
  define out where "out = average (df_out (df dw bs frames))"
  have res: "df2 dw frames = Inr out"
    unfolding out_def bs_def using assms by (rule df2_returns)
  have "frames \<noteq> []"
    using assms(1) by simp
  with assms(3) have "out = map (\<lambda>s. \<lparr>col_n = s\<^sup>2,
                 col_d = mean (map (\<lambda>j. col_d (row_of (df dw bs frames) j s))
                           (numbers_of (df dw bs frames) s))\<rparr>) bs"
    unfolding out_def bs_def by (intro average_rows boxsize_nonempty distinct_boxsize)
  then have n: "map col_n out = map (\<lambda>s. s\<^sup>2) bs"
    by (simp add: o_def)
  have "sorted_wrt (<) (map (\<lambda>s. s\<^sup>2) bs)"
    unfolding bs_def by (intro sorted_squares sorted_boxsize ballI boxsize_nonneg)
  with res n show ?thesis
    unfolding bs_def by auto
qed

subsection \<open>Sequences without intensity\<close>

lemma df_elem:
  assumes "r \<in> set (df dw bs frames)"
  obtains frame b k where "frame \<in> set frames" and "b \<in> set bs"
    and "k < length (windows_of dw frame b)" and "r = sample_of dw frame b k"
  using assms by (auto simp: df_cells)

lemma sum_list_zero: "\<forall>x \<in> set xs. x = (0::real) \<Longrightarrow> sum_list xs = 0"
  by (induction xs) simp_all

lemma mean_zero: "\<forall>x \<in> set xs. x = 0 \<Longrightarrow> mean xs = 0"
  by (simp add: mean_def sum_list_zero)

lemma std_zero:
  assumes "\<forall>x \<in> set xs. x = 0"
  shows "std xs = 0"
proof -
  have "mean xs = 0"
    using assms by (rule mean_zero)
  then have "\<forall>y \<in> set (map (\<lambda>x. \<bar>x - mean xs\<bar>\<^sup>2) xs). y = 0"
    using assms by simp
  then have "mean (map (\<lambda>x. \<bar>x - mean xs\<bar>\<^sup>2) xs) = 0"
    by (rule mean_zero)
  then show ?thesis
    by (simp add: std_def)
qed

lemma row_of_zero:
  assumes "\<forall>r \<in> set rows. col_I r = 0"
  shows "col_d (row_of rows j s) = 0"
proof -
  have "\<forall>x \<in> set (map col_I (filter (\<lambda>r. col_size r = s) (filter (\<lambda>r. col_number r = j) rows))). x = 0"
    using assms by simp
  then have "std (map col_I (filter (\<lambda>r. col_size r = s) (filter (\<lambda>r. col_number r = j) rows))) = 0"
    by (rule std_zero)
  then show ?thesis
    by (simp add: row_of_def)
qed

lemma df_zero:
  assumes "zero_preserving dw" and "\<forall>frame \<in> set frames. all_zero (snd frame)"
  shows "\<forall>r \<in> set (df dw bs frames). col_I r = 0"
proof
  fix r assume "r \<in> set (df dw bs frames)"
  then obtain frame b k where frame: "frame \<in> set frames"
    and k: "k < length (windows_of dw frame b)" and r: "r = sample_of dw frame b k"
    by (rule df_elem)
  have "\<forall>x \<in> set (windows_of dw frame b). x = 0"
    using assms frame unfolding zero_preserving_def windows_of_def by blast
  then show "col_I r = 0"
    using k by (simp add: r sample_of_def)
qed

text \<open>
  C8. For such a sequence in which every pixel of every frame is zero, and a windowing
  function that finds no intensity in such frames, the script returns one record per
  window size and every record has \<open>d = 0\<close>.
\<close>

theorem df2_all_zero:
  assumes "frames = (name, img) # rest" and "int size_min < shorter_side img"
    and "windows_everywhere dw (boxsize (shorter_side img)) frames"
    and "zero_preserving dw" and "\<forall>frame \<in> set frames. all_zero (snd frame)"
  shows "\<exists>out. df2 dw frames = Inr out \<and> length out = length (boxsize (shorter_side img))
    \<and> (\<forall>r \<in> set out. col_d r = 0)"
proof -
  define bs where "bs = boxsize (shorter_side img)"
  define out where "out = average (df_out (df dw bs frames))"
  have res: "df2 dw frames = Inr out"
    unfolding out_def bs_def using assms(1-3) by (rule df2_returns)
  have "frames \<noteq> []"
    using assms(1) by simp
  with assms(3) have "out = map (\<lambda>s. \<lparr>col_n = s\<^sup>2,
                 col_d = mean (map (\<lambda>j. col_d (row_of (df dw bs frames) j s))
                           (numbers_of (df dw bs frames) s))\<rparr>) bs"
    unfolding out_def bs_def by (intro average_rows boxsize_nonempty distinct_boxsize)
  moreover have "col_d (row_of (df dw bs frames) j s) = 0" for j s
    using df_zero [OF assms(4,5)] by (rule row_of_zero)
  ultimately have "out = map (\<lambda>s. \<lparr>col_n = s\<^sup>2, col_d = mean (map (\<lambda>j. 0) (numbers_of (df dw bs frames) s))\<rparr>) bs"
    by simp
  moreover have "mean (map (\<lambda>j. 0) js) = 0" for js :: "nat list"
    by (rule mean_zero) simp
  ultimately have "out = map (\<lambda>s. \<lparr>col_n = s\<^sup>2, col_d = 0\<rparr>) bs"
    by simp
  then have "length out = length bs" and "\<forall>r \<in> set out. col_d r = 0"
    by auto
  with res show ?thesis
    unfolding bs_def by blast
qed

subsection \<open>The fluctuation of each size\<close>

lemma subdata_cells:
  assumes "distinct bs" and "s \<in> set bs"
  shows "filter (\<lambda>r. col_size r = s) (filter (\<lambda>r. col_number r = j) (df dw bs frames))
    = map (\<lambda>frame. sample_of dw frame s j) (filter (\<lambda>frame. j < length (windows_of dw frame s)) frames)"
proof -
  have "filter (\<lambda>r. col_size r = s) (if j < length (windows_of dw frame b) then [sample_of dw frame b j] else [])
      = (if b = s then (if j < length (windows_of dw frame s) then [sample_of dw frame s j] else []) else [])"
    for frame b
    by (simp add: sample_of_def)
  then have "filter (\<lambda>r. col_size r = s)
        (concat (map (\<lambda>b. if j < length (windows_of dw frame b) then [sample_of dw frame b j] else []) bs))
      = (if j < length (windows_of dw frame s) then [sample_of dw frame s j] else [])" for frame
    using assms by (simp add: filter_concat_map concat_map_pick)
  then show ?thesis
    unfolding subdata1_cells by (simp add: filter_concat_map concat_map_if_single)
qed

lemma same_windows_everywhere: "same_windows dw bs frames m \<Longrightarrow> windows_everywhere dw bs frames"
  by (fastforce simp: same_windows_def windows_everywhere_def)

lemma row_of_same:
  assumes "same_windows dw bs frames m" and "distinct bs" and "s \<in> set bs" and "j < m s"
  shows "col_d (row_of (df dw bs frames) j s)
    = s\<^sup>2 * std (map (\<lambda>frame. dw (snd frame) s step ! j) frames)"
proof -
  have "filter (\<lambda>frame. j < length (windows_of dw frame s)) frames = frames"
    using assms(1,3,4) by (auto simp: same_windows_def windows_of_def filter_id_conv)
  then have "filter (\<lambda>r. col_size r = s) (filter (\<lambda>r. col_number r = j) (df dw bs frames))
      = map (\<lambda>frame. sample_of dw frame s j) frames"
    by (simp only: subdata_cells [OF assms(2,3)])
  then show ?thesis
    by (simp add: row_of_def o_def sample_of_def windows_of_def)
qed

lemma numbers_of_same:
  assumes "same_windows dw bs frames m" and "frames \<noteq> []" and "s \<in> set bs"
  shows "mset (numbers_of (df dw bs frames) s) = mset [0..<m s]"
proof -
  have "set (numbers_of (df dw bs frames) s) = {j. j < m s}"
  proof (intro set_eqI iffI; clarify)
    fix j assume "j \<in> set (numbers_of (df dw bs frames) s)"
    then obtain r where "r \<in> set (df dw bs frames)" and j: "col_number r = j" and s: "col_size r = s"
      by (auto simp: numbers_of_def)
    then obtain frame b k where frame: "frame \<in> set frames" and "b \<in> set bs"
      and k: "k < length (windows_of dw frame b)" and r: "r = sample_of dw frame b k"
      by (elim df_elem)
    have "b = s" and "k = j"
      using j s by (simp_all add: r sample_of_def)
    then show "j < m s"
      using assms(1,3) frame k by (simp add: same_windows_def windows_of_def)
  next
    fix j assume j: "j < m s"
    obtain f where f: "f \<in> set frames"
      using assms(2) by (cases frames) auto
    have "j < length (windows_of dw f s)"
      using assms(1,3) f j by (simp add: same_windows_def windows_of_def)
    with f assms(3) have "sample_of dw f s j \<in> set (df dw bs frames)"
      by (intro sample_in_df)
    moreover have "col_number (sample_of dw f s j) = j" and "col_size (sample_of dw f s j) = s"
      by (simp_all add: sample_of_def)
    ultimately show "j \<in> set (numbers_of (df dw bs frames) s)"
      unfolding numbers_of_def set_filter set_drop_duplicates
      by (metis (mono_tags, lifting) image_eqI list.set_map mem_Collect_eq)
  qed
  moreover have "distinct (numbers_of (df dw bs frames) s)"
    by (simp add: numbers_of_def distinct_drop_duplicates)
  moreover have "distinct [0..<m s]" and "set [0..<m s] = {j. j < m s}"
    by auto
  ultimately show ?thesis
    by (simp only: set_eq_iff_mset_eq_distinct [symmetric])
qed

lemma mean_mset:
  assumes "mset xs = mset ys"
  shows "mean (map g xs) = mean (map g ys)"
proof -
  have "mset (map g xs) = mset (map g ys)"
    using assms by (simp only: mset_map)
  then have "sum_mset (mset (map g xs)) = sum_mset (mset (map g ys))"
    by (rule arg_cong)
  then have "sum_list (map g xs) = sum_list (map g ys)"
    by (simp only: sum_mset_sum_list)
  then show ?thesis
    using mset_eq_length [OF assms] by (simp add: mean_def)
qed

lemma df2_same_windows:
  assumes "frames = (name, img) # rest" and "int size_min < shorter_side img"
    and "same_windows dw (boxsize (shorter_side img)) frames m"
  shows "df2 dw frames = Inr (map (\<lambda>s.
      \<lparr>col_n = s\<^sup>2,
       col_d = mean (map (\<lambda>k. s\<^sup>2 * std (map (\<lambda>frame. dw (snd frame) s step ! k) frames)) [0..<m s])\<rparr>)
    (boxsize (shorter_side img)))"
proof -
  define bs where "bs = boxsize (shorter_side img)"
  have ne: "frames \<noteq> []"
    using assms(1) by simp
  have same: "same_windows dw bs frames m"
    using assms(3) by (simp add: bs_def)
  then have ev: "windows_everywhere dw bs frames"
    by (rule same_windows_everywhere)
  have bs: "bs \<noteq> []" "distinct bs"
    by (simp_all add: bs_def boxsize_nonempty distinct_boxsize)
  have "mean (map (\<lambda>j. col_d (row_of (df dw bs frames) j s)) (numbers_of (df dw bs frames) s))
      = mean (map (\<lambda>k. s\<^sup>2 * std (map (\<lambda>frame. dw (snd frame) s step ! k) frames)) [0..<m s])"
    if "s \<in> set bs" for s
  proof -
    have "mean (map (\<lambda>j. col_d (row_of (df dw bs frames) j s)) (numbers_of (df dw bs frames) s))
        = mean (map (\<lambda>j. col_d (row_of (df dw bs frames) j s)) [0..<m s])"
      using numbers_of_same [OF same ne that] by (rule mean_mset)
    also have "map (\<lambda>j. col_d (row_of (df dw bs frames) j s)) [0..<m s]
        = map (\<lambda>k. s\<^sup>2 * std (map (\<lambda>frame. dw (snd frame) s step ! k) frames)) [0..<m s]"
      using row_of_same [OF same bs(2) that] by simp
    finally show ?thesis .
  qed
  then have "average (df_out (df dw bs frames)) = map (\<lambda>s.
      \<lparr>col_n = s\<^sup>2,
       col_d = mean (map (\<lambda>k. s\<^sup>2 * std (map (\<lambda>frame. dw (snd frame) s step ! k) frames)) [0..<m s])\<rparr>) bs"
    unfolding average_rows [OF ev ne bs] by simp
  moreover have "df2 dw frames = Inr (average (df_out (df dw bs frames)))"
    unfolding bs_def using assms(1,2) ev [unfolded bs_def] by (rule df2_returns)
  ultimately show ?thesis
    by (simp add: bs_def)
qed

text \<open>
  C1, as amended. When every frame has the same number \<open>m s > 0\<close> of windows of each size
  \<open>s\<close>, the record of size \<open>s\<close> has \<open>n = s\<^sup>2\<close>, and its \<open>d\<close> is the mean, over the windows
  \<open>k\<close> of that size, of \<open>s\<^sup>2\<close> times the population standard deviation of the intensities
  of window \<open>k\<close> across the frames.
\<close>

theorem df2_fluctuation:
  assumes "frames = (name, img) # rest" and "int size_min < shorter_side img"
    and "same_windows dw (boxsize (shorter_side img)) frames m"
  shows "df2 dw frames = Inr (map (\<lambda>s.
      \<lparr>col_n = s\<^sup>2,
       col_d = mean (map (\<lambda>k. s\<^sup>2 * std (map (\<lambda>frame. dw (snd frame) s step ! k) frames)) [0..<m s])\<rparr>)
    (boxsize (shorter_side img)))"
  using assms by (rule df2_same_windows)

subsection \<open>The example frames\<close>

lemma shape_replicate: "0 < k \<Longrightarrow> shape (replicate k row) = (k, length row)"
  by (cases k) (simp_all add: shape_def)

lemma shape_examples: "shape frame_dark = (15, 300)" "shape frame_spot = (15, 300)"
  by (simp_all add: shape_replicate frame_dark_def) (simp add: shape_def frame_spot_def)

lemma shorter_side_examples: "shorter_side frame_dark = 15" "shorter_side frame_spot = 15"
  by (simp_all add: shorter_side_def shape_examples)

lemma positions_examples: "positions 15 5 250 = [0]" "positions 300 5 250 = [0, 250]"
  by (simp_all add: positions_def upt_rec)

lemma windows_dark: "divide_windows frame_dark 5 step = [0, 0]"
  by (simp add: divide_windows_def step_def size_min_def shape_examples positions_examples
      window_sum_def, simp add: frame_dark_def sum_list_replicate)

lemma windows_spot: "divide_windows frame_spot 5 step = [0, 2]"
  by (simp add: divide_windows_def step_def size_min_def shape_examples positions_examples
      window_sum_def, simp add: frame_spot_def sum_list_replicate)

lemma window_sum_zero:
  assumes "all_zero img"
  shows "window_sum img w r c = 0"
proof -
  have "sum_list (take w (drop c row)) = 0" if "row \<in> set (take w (drop r img))" for row
  proof -
    have "row \<in> set img"
      using that by (meson in_set_takeD in_set_dropD)
    then have "\<forall>p \<in> set (take w (drop c row)). p = 0"
      using assms by (meson all_zero_def in_set_takeD in_set_dropD)
    then show ?thesis
      by (rule sum_list_zero)
  qed
  then have "\<forall>x \<in> set (map (\<lambda>row. sum_list (take w (drop c row))) (take w (drop r img))). x = 0"
    by simp
  then show ?thesis
    unfolding window_sum_def by (rule sum_list_zero)
qed

lemma divide_windows_zero: "zero_preserving divide_windows"
  by (auto simp: zero_preserving_def divide_windows_def Let_def window_sum_zero)

lemma all_zero_dark: "all_zero frame_dark"
  by (simp add: all_zero_def frame_dark_def)

lemma std_examples: "std [0, 0] = 0" "std [2, 0] = 1" "std [2, 2] = 0" "std [0, 2, 0, 2] = 1"
  by (simp_all add: std_def mean_def)

theorem df2_fluctuation_witness:
  "df2 divide_windows [(0, frame_spot), (1, frame_dark)] = Inr [\<lparr>col_n = 25, col_d = 25 / 2\<rparr>]"
proof -
  have "same_windows divide_windows (boxsize (shorter_side frame_spot))
      [(0, frame_spot), (1, frame_dark)] (\<lambda>s. 2)"
    by (simp add: same_windows_def shorter_side_examples boxsize_15 windows_spot windows_dark)
  then have "df2 divide_windows [(0, frame_spot), (1, frame_dark)] = Inr (map (\<lambda>s.
      \<lparr>col_n = s\<^sup>2,
       col_d = mean (map (\<lambda>k. s\<^sup>2 * std (map (\<lambda>frame. divide_windows (snd frame) s step ! k)
         [(0, frame_spot), (1, frame_dark)])) [0..<2])\<rparr>)
    (boxsize (shorter_side frame_spot)))"
    using df2_fluctuation [where frames = "[(0, frame_spot), (1, frame_dark)]" and name = 0
        and img = frame_spot and rest = "[(1, frame_dark)]" and dw = divide_windows
        and m = "\<lambda>s. 2"]
    by (simp add: shorter_side_examples size_min_def)
  then show ?thesis
    by (simp add: shorter_side_examples boxsize_15 windows_spot windows_dark upt_rec
        std_examples mean_def)
qed

text \<open>
  C1 as stated fails: in two equal frames no window changes with time and the script
  records \<open>d = 0\<close>, while the standard deviation of all window intensities of the size,
  collected across the frames, times the squared size is 25.
\<close>

theorem df2_fluctuation_counterexample:
  "df2 divide_windows [(0, frame_spot), (1, frame_spot)] = Inr [\<lparr>col_n = 25, col_d = 0\<rparr>]
   \<and> pooled_fluctuation divide_windows [(0, frame_spot), (1, frame_spot)] 5 = 25"
proof -
  have "same_windows divide_windows (boxsize (shorter_side frame_spot))
      [(0, frame_spot), (1, frame_spot)] (\<lambda>s. 2)"
    by (simp add: same_windows_def shorter_side_examples boxsize_15 windows_spot)
  then have "df2 divide_windows [(0, frame_spot), (1, frame_spot)] = Inr (map (\<lambda>s.
      \<lparr>col_n = s\<^sup>2,
       col_d = mean (map (\<lambda>k. s\<^sup>2 * std (map (\<lambda>frame. divide_windows (snd frame) s step ! k)
         [(0, frame_spot), (1, frame_spot)])) [0..<2])\<rparr>)
    (boxsize (shorter_side frame_spot)))"
    using df2_same_windows [where frames = "[(0, frame_spot), (1, frame_spot)]" and name = 0
        and img = frame_spot and rest = "[(1, frame_spot)]" and dw = divide_windows
        and m = "\<lambda>s. 2"]
    by (simp add: shorter_side_examples size_min_def)
  then have "df2 divide_windows [(0, frame_spot), (1, frame_spot)] = Inr [\<lparr>col_n = 25, col_d = 0\<rparr>]"
    by (simp add: shorter_side_examples boxsize_15 windows_spot upt_rec std_examples mean_def)
  moreover have "pooled_fluctuation divide_windows [(0, frame_spot), (1, frame_spot)] 5 = 25"
    by (simp add: pooled_fluctuation_def windows_spot std_examples)
  ultimately show ?thesis
    by simp
qed

theorem df2_one_record_per_size_witness:
  "\<exists>out. df2 divide_windows [(0, frame_spot), (1, frame_dark)] = Inr out
     \<and> map col_n out = [25] \<and> sorted_wrt (<) (map col_n out)"
proof -
  have "windows_everywhere divide_windows (boxsize (shorter_side frame_spot))
      [(0, frame_spot), (1, frame_dark)]"
    by (simp add: windows_everywhere_def shorter_side_examples boxsize_15 windows_spot windows_dark)
  then have "\<exists>out. df2 divide_windows [(0, frame_spot), (1, frame_dark)] = Inr out
    \<and> map col_n out = map (\<lambda>s. s\<^sup>2) (boxsize (shorter_side frame_spot))
    \<and> sorted_wrt (<) (map col_n out)"
    using df2_one_record_per_size [where frames = "[(0, frame_spot), (1, frame_dark)]"
        and name = 0 and img = frame_spot and rest = "[(1, frame_dark)]" and dw = divide_windows]
    by (simp add: shorter_side_examples size_min_def)
  then show ?thesis
    by (simp add: shorter_side_examples boxsize_15)
qed

theorem df2_all_zero_witness:
  "\<exists>out. df2 divide_windows [(0, frame_dark), (1, frame_dark)] = Inr out
     \<and> length out = 1 \<and> (\<forall>r \<in> set out. col_d r = 0)"
proof -
  have "windows_everywhere divide_windows (boxsize (shorter_side frame_dark))
      [(0, frame_dark), (1, frame_dark)]"
    by (simp add: windows_everywhere_def shorter_side_examples boxsize_15 windows_dark)
  then have "\<exists>out. df2 divide_windows [(0, frame_dark), (1, frame_dark)] = Inr out
    \<and> length out = length (boxsize (shorter_side frame_dark))
    \<and> (\<forall>r \<in> set out. col_d r = 0)"
    using df2_all_zero [where frames = "[(0, frame_dark), (1, frame_dark)]"
        and name = 0 and img = frame_dark and rest = "[(1, frame_dark)]" and dw = divide_windows]
    by (simp add: shorter_side_examples size_min_def divide_windows_zero all_zero_dark)
  then show ?thesis
    by (simp add: shorter_side_examples boxsize_15)
qed

end
